theory Spec2Isabelle
  imports Main "HOL-Library.Signed_Division" "HOL-Library.Char_ord" "HOL-Library.List_Lexorder"
begin

section \<open>Runtime object model (runtime.h, runtime.cpp)\<close>

text \<open>
  The six comparison functions of namespace runtime; a Comparison node is bound to one
  of them.
\<close>

datatype comparator =
  CmpEqual | CmpNotEqual | CmpLess | CmpGreater | CmpLessOrEqual | CmpGreaterOrEqual

text \<open>
  The statement classes of statement.h, the objects an ObjectHolder can refer to, and
  the class descriptors. A NewInstance node owns one ClassInstance (its member
  class_instance_); the node carries the address of that member and the class it was
  constructed with. An ObjectHolder over a ClassInstance is the address of the instance
  together with the (immutable) class reference cls_ of that instance; the mutable field
  table fields_ lives in the store. The parent of a class is absent when the
  constructor received nullptr (the source then stores the class itself as a sentinel).
\<close>

datatype stmt =
    NumericConst int
  | StringConst string
  | BoolConst bool
  | NoneConst
  | VariableValue "string list"
  | Assignment string stmt
  | FieldAssignment "string list" string stmt
  | Print "stmt list"
  | MethodCall stmt string "stmt list"
  | NewInstance nat "class" "stmt list"
  | Stringify stmt
  | Add stmt stmt
  | Sub stmt stmt
  | Mult stmt stmt
  | Div stmt stmt
  | Or stmt stmt
  | And stmt stmt
  | Not_stmt stmt
  | Comparison comparator stmt stmt
  | Compound "stmt list"
  | MethodBody stmt
  | Return stmt
  | ClassDefinition holder
  | IfElse stmt stmt "stmt option"
and holder =
    HNone
  | HNumber int
  | HString string
  | HBool bool
  | HClass "class"
  | HInstance nat "class"
and "class" = Class (class_name: string) (class_methods: "method list") (class_parent: "class option")
and "method" = Method (name: string) (formal_params: "string list") (body: stmt)

type_synonym closure = "string \<Rightarrow> holder option"

text \<open>
  The mutable world an Execute call can touch besides the closure it is given: the field
  tables of the class instances (by address) and the output stream of the context.
\<close>

record state =
  heap :: "nat \<Rightarrow> closure"
  out :: string

text \<open>
  What leaves a call other than a returned value: the ObjectHolder thrown by Return, a
  std::runtime_error with its message, behaviour the C++ standard leaves undefined
  (null dereference, integer division by zero, signed overflow), and exhaustion of the
  evaluation fuel of this model.
\<close>

datatype exn =
    ReturnSignal holder
  | RuntimeError string
  | Undefined
  | OutOfFuel

type_synonym result = "(exn + holder) \<times> closure \<times> state"
type_synonym executor = "stmt \<Rightarrow> closure \<Rightarrow> state \<Rightarrow> result"
type_synonym printer = "holder \<Rightarrow> state \<Rightarrow> (exn + unit) \<times> string \<times> state"

fun IsTrue :: "holder \<Rightarrow> bool" where
  "IsTrue (HNumber n) = (n \<noteq> 0)"
| "IsTrue (HString s) = (s \<noteq> [])"
| "IsTrue (HBool b) = b"
| "IsTrue _ = False"

fun GetMethod :: "class \<Rightarrow> string \<Rightarrow> method option" where
  "GetMethod (Class n ms p) nm =
     (case find (\<lambda>m. name m = nm) ms of
        Some m \<Rightarrow> Some m
      | None \<Rightarrow> (case p of None \<Rightarrow> None | Some pc \<Rightarrow> GetMethod pc nm))"

definition HasMethod :: "class \<Rightarrow> string \<Rightarrow> nat \<Rightarrow> bool" where
  "HasMethod cls m argument_count =
     (case GetMethod cls m of
        None \<Rightarrow> False
      | Some mp \<Rightarrow> length (formal_params mp) = argument_count)"


text \<open>ObjectHolder::TryAs for the object types the code narrows to (null is None).\<close>

fun TryAs_Number :: "holder \<Rightarrow> int option" where
  "TryAs_Number (HNumber n) = Some n"
| "TryAs_Number _ = None"

fun TryAs_String :: "holder \<Rightarrow> string option" where
  "TryAs_String (HString s) = Some s"
| "TryAs_String _ = None"

fun TryAs_Bool :: "holder \<Rightarrow> bool option" where
  "TryAs_Bool (HBool b) = Some b"
| "TryAs_Bool _ = None"

fun TryAs_Class :: "holder \<Rightarrow> class option" where
  "TryAs_Class (HClass c) = Some c"
| "TryAs_Class _ = None"

fun TryAs_ClassInstance :: "holder \<Rightarrow> (nat \<times> class) option" where
  "TryAs_ClassInstance (HInstance a cls) = Some (a, cls)"
| "TryAs_ClassInstance _ = None"

text \<open>
  Number wraps a C++ int. Arithmetic whose mathematical result does not fit the 32-bit
  int is undefined behaviour, as is division by zero; the quotient truncates towards zero.
\<close>

definition int_range :: "int \<Rightarrow> bool" where
  "int_range v \<longleftrightarrow> - 2147483648 \<le> v \<and> v \<le> 2147483647"

definition Number_of :: "int \<Rightarrow> exn + holder" where
  "Number_of v = (if int_range v then Inr (HNumber v) else Inl Undefined)"

definition int_div :: "int \<Rightarrow> int \<Rightarrow> exn + holder" where
  "int_div a b = (if b = 0 then Inl Undefined else Number_of (a sdiv b))"

text \<open>Decimal text of an int, as operator<< writes it.\<close>

fun string_of_nat :: "nat \<Rightarrow> string" where
  "string_of_nat n =
     (if n < 10 then [char_of (48 + n)]
      else string_of_nat (n div 10) @ [char_of (48 + n mod 10)])"

definition string_of_int :: "int \<Rightarrow> string" where
  "string_of_int i =
     (if i < 0 then CHR ''-'' # string_of_nat (nat (- i)) else string_of_nat (nat i))"

text \<open>
  The text operator<< writes for the address of an instance is implementation-defined;
  the model fixes one rendering of it.
\<close>

definition address_text :: "nat \<Rightarrow> string" where
  "address_text a = ''0x'' @ string_of_nat a"

definition LF :: char where
  "LF = CHR 0x0A"

text \<open>
  ClassInstance::Call on the instance at address a of class cls. The callee runs on a
  fresh closure holding self and the formals; that closure is dropped on return.
\<close>

definition Call :: "executor \<Rightarrow> nat \<Rightarrow> class \<Rightarrow> string \<Rightarrow> holder list \<Rightarrow> state \<Rightarrow> (exn + holder) \<times> state" where
  "Call ex a cls m actual_args st =
     (if HasMethod cls m (length actual_args) then
        (case GetMethod cls m of
           None \<Rightarrow> (Inl Undefined, st)
         | Some method_ptr \<Rightarrow>
             (let args = fold (\<lambda>(p, v) cl. cl(p \<mapsto> v))
                           (zip (formal_params method_ptr) actual_args)
                           [''self'' \<mapsto> HInstance a cls]
              in case ex (body method_ptr) args st of (r, _, st') \<Rightarrow> (r, st')))
      else (Inl (RuntimeError ''Not implemented''), st))"

text \<open>
  Object::Print, dispatched on the object held. The second component of the result is
  the text written to the stream os (kept also when the call throws after writing); the
  state carries what a called __str__ body did. Print on an empty holder dereferences
  a null pointer.
\<close>

definition Print_object :: "executor \<Rightarrow> printer \<Rightarrow> holder \<Rightarrow> state \<Rightarrow> (exn + unit) \<times> string \<times> state" where
  "Print_object ex pr h st =
     (case h of
        HNone \<Rightarrow> (Inl Undefined, [], st)
      | HNumber n \<Rightarrow> (Inr (), string_of_int n, st)
      | HString s \<Rightarrow> (Inr (), s, st)
      | HBool b \<Rightarrow> (Inr (), if b then ''True'' else ''False'', st)
      | HClass c \<Rightarrow>
          (if class_name c = [] then (Inl (RuntimeError ''Not implemented''), ''Class '', st)
           else (Inr (), ''Class '' @ class_name c, st))
      | HInstance a cls \<Rightarrow>
          (if HasMethod cls ''__str__'' 0 then
             (case Call ex a cls ''__str__'' [] st of
                (Inl e, st') \<Rightarrow> (Inl e, [], st')
              | (Inr r, st') \<Rightarrow> pr r st')
           else (Inr (), address_text a, st)))"

text \<open>
  The comparison functions of runtime.cpp. The right operand of the C++ operator and-also
  is evaluated only when the left one is true.
\<close>

definition Equal :: "executor \<Rightarrow> holder \<Rightarrow> holder \<Rightarrow> state \<Rightarrow> (exn + bool) \<times> state" where
  "Equal ex lhs rhs st =
     (if TryAs_Number lhs \<noteq> None \<and> TryAs_Number rhs \<noteq> None then
        (Inr (the (TryAs_Number lhs) = the (TryAs_Number rhs)), st)
      else if TryAs_String lhs \<noteq> None \<and> TryAs_String rhs \<noteq> None then
        (Inr (the (TryAs_String lhs) = the (TryAs_String rhs)), st)
      else if TryAs_Bool lhs \<noteq> None \<and> TryAs_Bool rhs \<noteq> None then
        (Inr (the (TryAs_Bool lhs) = the (TryAs_Bool rhs)), st)
      else if lhs = HNone \<and> rhs = HNone then (Inr True, st)
      else
        (case TryAs_ClassInstance lhs of
           Some (a, cls) \<Rightarrow>
             (if HasMethod cls ''__eq__'' 1 then
                (case Call ex a cls ''__eq__'' [rhs] st of
                   (Inl e, st') \<Rightarrow> (Inl e, st')
                 | (Inr r, st') \<Rightarrow>
                     (case TryAs_Bool r of
                        None \<Rightarrow> (Inl Undefined, st')
                      | Some b \<Rightarrow> (Inr b, st')))
              else (Inl (RuntimeError ''Cannot compare objects for equality''), st))
         | None \<Rightarrow> (Inl (RuntimeError ''Cannot compare objects for equality''), st)))"

definition Less :: "executor \<Rightarrow> holder \<Rightarrow> holder \<Rightarrow> state \<Rightarrow> (exn + bool) \<times> state" where
  "Less ex lhs rhs st =
     (if TryAs_Number lhs \<noteq> None \<and> TryAs_Number rhs \<noteq> None then
        (Inr (the (TryAs_Number lhs) < the (TryAs_Number rhs)), st)
      else if TryAs_String lhs \<noteq> None \<and> TryAs_String rhs \<noteq> None then
        (Inr (the (TryAs_String lhs) < the (TryAs_String rhs)), st)
      else if TryAs_Bool lhs \<noteq> None \<and> TryAs_Bool rhs \<noteq> None then
        (Inr (the (TryAs_Bool lhs) < the (TryAs_Bool rhs)), st)
      else
        (case TryAs_ClassInstance lhs of
           Some (a, cls) \<Rightarrow>
             (if HasMethod cls ''__lt__'' 1 then
                (case Call ex a cls ''__lt__'' [rhs] st of
                   (Inl e, st') \<Rightarrow> (Inl e, st')
                 | (Inr r, st') \<Rightarrow>
                     (case TryAs_Bool r of
                        None \<Rightarrow> (Inl Undefined, st')
                      | Some b \<Rightarrow> (Inr b, st')))
              else (Inl (RuntimeError ''Cannot compare objects for equality''), st))
         | None \<Rightarrow> (Inl (RuntimeError ''Cannot compare objects for equality''), st)))"

definition NotEqual :: "executor \<Rightarrow> holder \<Rightarrow> holder \<Rightarrow> state \<Rightarrow> (exn + bool) \<times> state" where
  "NotEqual ex lhs rhs st =
     (case Equal ex lhs rhs st of
        (Inl e, st') \<Rightarrow> (Inl e, st')
      | (Inr b, st') \<Rightarrow> (Inr (\<not> b), st'))"

definition Greater :: "executor \<Rightarrow> holder \<Rightarrow> holder \<Rightarrow> state \<Rightarrow> (exn + bool) \<times> state" where
  "Greater ex lhs rhs st =
     (case Less ex lhs rhs st of
        (Inl e, st') \<Rightarrow> (Inl e, st')
      | (Inr l, st') \<Rightarrow>
          (if \<not> l then
             (case Equal ex lhs rhs st' of
                (Inl e, st'') \<Rightarrow> (Inl e, st'')
              | (Inr q, st'') \<Rightarrow> (Inr (\<not> q), st''))
           else (Inr False, st')))"

definition LessOrEqual :: "executor \<Rightarrow> holder \<Rightarrow> holder \<Rightarrow> state \<Rightarrow> (exn + bool) \<times> state" where
  "LessOrEqual ex lhs rhs st =
     (case Greater ex lhs rhs st of
        (Inl e, st') \<Rightarrow> (Inl e, st')
      | (Inr b, st') \<Rightarrow> (Inr (\<not> b), st'))"

definition GreaterOrEqual :: "executor \<Rightarrow> holder \<Rightarrow> holder \<Rightarrow> state \<Rightarrow> (exn + bool) \<times> state" where
  "GreaterOrEqual ex lhs rhs st =
     (case Less ex lhs rhs st of
        (Inl e, st') \<Rightarrow> (Inl e, st')
      | (Inr b, st') \<Rightarrow> (Inr (\<not> b), st'))"

fun apply_comparator :: "comparator \<Rightarrow> executor \<Rightarrow> holder \<Rightarrow> holder \<Rightarrow> state \<Rightarrow> (exn + bool) \<times> state" where
  "apply_comparator CmpEqual = Equal"
| "apply_comparator CmpNotEqual = NotEqual"
| "apply_comparator CmpLess = Less"
| "apply_comparator CmpGreater = Greater"
| "apply_comparator CmpLessOrEqual = LessOrEqual"
| "apply_comparator CmpGreaterOrEqual = GreaterOrEqual"


section \<open>Statements (statement.h, statement.cpp)\<close>

text \<open>
  Every Execute below takes the executor ex that runs a child statement (the virtual
  call through the Statement pointer) and returns the result together with the closure
  and the state as the call left them, also when it throws.
\<close>

text \<open>
  VariableValue::Execute. The loop keeps the table it searches (local_closer) and the
  entry it found last (itr_runner); with no identifier at all it returns the entry at
  closure.begin(), which the model leaves undefined.
\<close>

fun VariableValue_loop :: "(nat \<Rightarrow> closure) \<Rightarrow> closure \<Rightarrow> holder option \<Rightarrow> string list \<Rightarrow> exn + holder" where
  "VariableValue_loop hp local_closer itr_runner [] =
     (case itr_runner of None \<Rightarrow> Inl Undefined | Some h \<Rightarrow> Inr h)"
| "VariableValue_loop hp local_closer itr_runner (val # vals) =
     (case local_closer val of
        None \<Rightarrow> Inl (RuntimeError ''runtime_error VariableValue::Execute()'')
      | Some h \<Rightarrow>
          (case TryAs_ClassInstance h of
             Some (a, cls) \<Rightarrow> VariableValue_loop hp (hp a) (Some h) vals
           | None \<Rightarrow> VariableValue_loop hp local_closer (Some h) vals))"

definition VariableValue_Execute :: "string list \<Rightarrow> closure \<Rightarrow> state \<Rightarrow> result" where
  "VariableValue_Execute dotted_ids c st =
     (VariableValue_loop (heap st) c None dotted_ids, c, st)"

definition Assignment_Execute :: "executor \<Rightarrow> string \<Rightarrow> stmt \<Rightarrow> closure \<Rightarrow> state \<Rightarrow> result" where
  "Assignment_Execute ex var rv c st =
     (case ex rv c st of
        (Inl e, c', st') \<Rightarrow> (Inl e, c', st')
      | (Inr h, c', st') \<Rightarrow> (Inr h, c'(var \<mapsto> h), st'))"

text \<open>
  FieldAssignment::Execute: the right operand of the assignment (rv) is evaluated
  before the left one (C++17); the object must be a class instance, else the null
  pointer is dereferenced.
\<close>

definition FieldAssignment_Execute :: "executor \<Rightarrow> string list \<Rightarrow> string \<Rightarrow> stmt \<Rightarrow> closure \<Rightarrow> state \<Rightarrow> result" where
  "FieldAssignment_Execute ex object field_name rv c st =
     (case ex rv c st of
        (Inl e, c1, st1) \<Rightarrow> (Inl e, c1, st1)
      | (Inr v, c1, st1) \<Rightarrow>
          (case VariableValue_Execute object c1 st1 of
             (Inl e, c2, st2) \<Rightarrow> (Inl e, c2, st2)
           | (Inr obj, c2, st2) \<Rightarrow>
               (case TryAs_ClassInstance obj of
                  None \<Rightarrow> (Inl Undefined, c2, st2)
                | Some (a, cls) \<Rightarrow>
                    (Inr v, c2, st2\<lparr>heap := (heap st2)(a := (heap st2 a)(field_name \<mapsto> v))\<rparr>))))"

fun Print_loop :: "executor \<Rightarrow> printer \<Rightarrow> stmt list \<Rightarrow> bool \<Rightarrow> holder \<Rightarrow> closure \<Rightarrow> state \<Rightarrow> result" where
  "Print_loop ex pr [] first_flag object_holder c st =
     (Inr object_holder, c, st\<lparr>out := out st @ [LF]\<rparr>)"
| "Print_loop ex pr (arg # args) first_flag object_holder c st =
     (case ex arg c (if first_flag then st else st\<lparr>out := out st @ '' ''\<rparr>) of
        (Inl e, c', st') \<Rightarrow> (Inl e, c', st')
      | (Inr h, c', st') \<Rightarrow>
          (if h \<noteq> HNone then
             (case pr h st' of
                (Inl e, txt, st'') \<Rightarrow> (Inl e, c', st''\<lparr>out := out st'' @ txt\<rparr>)
              | (Inr u, txt, st'') \<Rightarrow>
                  Print_loop ex pr args False h c' (st''\<lparr>out := out st'' @ txt\<rparr>))
           else Print_loop ex pr args False h c' (st'\<lparr>out := out st' @ ''None''\<rparr>)))"

definition Print_Execute :: "executor \<Rightarrow> printer \<Rightarrow> stmt list \<Rightarrow> closure \<Rightarrow> state \<Rightarrow> result" where
  "Print_Execute ex pr args c st = Print_loop ex pr args True HNone c st"

text \<open>The loops of MethodCall and NewInstance that collect the actual arguments.\<close>

fun eval_args :: "executor \<Rightarrow> stmt list \<Rightarrow> holder list \<Rightarrow> closure \<Rightarrow> state \<Rightarrow> (exn + holder list) \<times> closure \<times> state" where
  "eval_args ex [] actual_args c st = (Inr actual_args, c, st)"
| "eval_args ex (arg # args) actual_args c st =
     (case ex arg c st of
        (Inl e, c', st') \<Rightarrow> (Inl e, c', st')
      | (Inr h, c', st') \<Rightarrow> eval_args ex args (actual_args @ [h]) c' st')"

definition MethodCall_Execute :: "executor \<Rightarrow> stmt \<Rightarrow> string \<Rightarrow> stmt list \<Rightarrow> closure \<Rightarrow> state \<Rightarrow> result" where
  "MethodCall_Execute ex object m args c st =
     (case eval_args ex args [] c st of
        (Inl e, c1, st1) \<Rightarrow> (Inl e, c1, st1)
      | (Inr actual_args, c1, st1) \<Rightarrow>
          (case ex object c1 st1 of
             (Inl e, c2, st2) \<Rightarrow> (Inl e, c2, st2)
           | (Inr obj, c2, st2) \<Rightarrow>
               (case TryAs_ClassInstance obj of
                  None \<Rightarrow> (Inl Undefined, c2, st2)
                | Some (a, cls) \<Rightarrow>
                    (case Call ex a cls m actual_args st2 of (r, st3) \<Rightarrow> (r, c2, st3)))))"

definition Stringify_Execute :: "executor \<Rightarrow> printer \<Rightarrow> stmt \<Rightarrow> closure \<Rightarrow> state \<Rightarrow> result" where
  "Stringify_Execute ex pr argument c st =
     (case ex argument c st of
        (Inl e, c1, st1) \<Rightarrow> (Inl e, c1, st1)
      | (Inr arg, c1, st1) \<Rightarrow>
          (if arg = HNone then (Inr (HString ''None''), c1, st1)
           else
             (case pr arg st1 of
                (Inl e, txt, st2) \<Rightarrow> (Inl e, c1, st2)
              | (Inr u, txt, st2) \<Rightarrow> (Inr (HString txt), c1, st2))))"

text \<open>The first two lines of every binary arithmetic Execute: lhs, then rhs.\<close>

definition operands :: "executor \<Rightarrow> stmt \<Rightarrow> stmt \<Rightarrow> closure \<Rightarrow> state \<Rightarrow> (exn + holder \<times> holder) \<times> closure \<times> state" where
  "operands ex lhs rhs c st =
     (case ex lhs c st of
        (Inl e, c1, st1) \<Rightarrow> (Inl e, c1, st1)
      | (Inr obj_lhs, c1, st1) \<Rightarrow>
          (case ex rhs c1 st1 of
             (Inl e, c2, st2) \<Rightarrow> (Inl e, c2, st2)
           | (Inr obj_rhs, c2, st2) \<Rightarrow> (Inr (obj_lhs, obj_rhs), c2, st2)))"

text \<open>
  The last branch of Add::Execute executes lhs again for each test and once more, with
  rhs, for the call of __add__.
\<close>

definition Add_dispatch :: "executor \<Rightarrow> stmt \<Rightarrow> stmt \<Rightarrow> closure \<Rightarrow> state \<Rightarrow> result" where
  "Add_dispatch ex lhs rhs c st =
     (case ex lhs c st of
        (Inl e, c1, st1) \<Rightarrow> (Inl e, c1, st1)
      | (Inr h1, c1, st1) \<Rightarrow>
          (if TryAs_ClassInstance h1 \<noteq> None then
             (case ex lhs c1 st1 of
                (Inl e, c2, st2) \<Rightarrow> (Inl e, c2, st2)
              | (Inr h2, c2, st2) \<Rightarrow>
                  (case TryAs_ClassInstance h2 of
                     None \<Rightarrow> (Inl Undefined, c2, st2)
                   | Some (a2, cls2) \<Rightarrow>
                       (if HasMethod cls2 ''__add__'' 1 then
                          (case operands ex lhs rhs c2 st2 of
                             (Inl e, c3, st3) \<Rightarrow> (Inl e, c3, st3)
                           | (Inr (h3, h4), c3, st3) \<Rightarrow>
                               (case TryAs_ClassInstance h3 of
                                  None \<Rightarrow> (Inl Undefined, c3, st3)
                                | Some (a3, cls3) \<Rightarrow>
                                    (case Call ex a3 cls3 ''__add__'' [h4] st3 of
                                       (r, st4) \<Rightarrow> (r, c3, st4))))
                        else (Inl (RuntimeError ''Execute(): ADD --runtime_error''), c2, st2))))
           else (Inl (RuntimeError ''Execute(): ADD --runtime_error''), c1, st1)))"

definition Add_Execute :: "executor \<Rightarrow> stmt \<Rightarrow> stmt \<Rightarrow> closure \<Rightarrow> state \<Rightarrow> result" where
  "Add_Execute ex lhs rhs c st =
     (case operands ex lhs rhs c st of
        (Inl e, c1, st1) \<Rightarrow> (Inl e, c1, st1)
      | (Inr (obj_lhs, obj_rhs), c1, st1) \<Rightarrow>
          (if TryAs_Number obj_lhs \<noteq> None \<and> TryAs_Number obj_rhs \<noteq> None then
             (Number_of (the (TryAs_Number obj_lhs) + the (TryAs_Number obj_rhs)), c1, st1)
           else if TryAs_String obj_lhs \<noteq> None \<and> TryAs_String obj_rhs \<noteq> None then
             (Inr (HString (the (TryAs_String obj_lhs) @ the (TryAs_String obj_rhs))), c1, st1)
           else Add_dispatch ex lhs rhs c1 st1))"

definition Sub_Execute :: "executor \<Rightarrow> stmt \<Rightarrow> stmt \<Rightarrow> closure \<Rightarrow> state \<Rightarrow> result" where
  "Sub_Execute ex lhs rhs c st =
     (case operands ex lhs rhs c st of
        (Inl e, c1, st1) \<Rightarrow> (Inl e, c1, st1)
      | (Inr (obj_lhs, obj_rhs), c1, st1) \<Rightarrow>
          (if TryAs_Number obj_lhs \<noteq> None \<and> TryAs_Number obj_rhs \<noteq> None then
             (Number_of (the (TryAs_Number obj_lhs) - the (TryAs_Number obj_rhs)), c1, st1)
           else (Inl (RuntimeError ''Execute(): SUB --runtime_error''), c1, st1)))"

definition Mult_Execute :: "executor \<Rightarrow> stmt \<Rightarrow> stmt \<Rightarrow> closure \<Rightarrow> state \<Rightarrow> result" where
  "Mult_Execute ex lhs rhs c st =
     (case operands ex lhs rhs c st of
        (Inl e, c1, st1) \<Rightarrow> (Inl e, c1, st1)
      | (Inr (obj_lhs, obj_rhs), c1, st1) \<Rightarrow>
          (if TryAs_Number obj_lhs \<noteq> None \<and> TryAs_Number obj_rhs \<noteq> None then
             (Number_of (the (TryAs_Number obj_lhs) * the (TryAs_Number obj_rhs)), c1, st1)
           else (Inl (RuntimeError ''Execute(): MULT --runtime_error''), c1, st1)))"

text \<open>
  Div::Execute. The inner test repeats the type test on the right operand, so its
  else branch (the division-by-zero error) is never taken and the division is performed
  whatever the value of the right operand.
\<close>

definition Div_Execute :: "executor \<Rightarrow> stmt \<Rightarrow> stmt \<Rightarrow> closure \<Rightarrow> state \<Rightarrow> result" where
  "Div_Execute ex lhs rhs c st =
     (case operands ex lhs rhs c st of
        (Inl e, c1, st1) \<Rightarrow> (Inl e, c1, st1)
      | (Inr (obj_lhs, obj_rhs), c1, st1) \<Rightarrow>
          (if TryAs_Number obj_lhs \<noteq> None \<and> TryAs_Number obj_rhs \<noteq> None then
             (if TryAs_Number obj_rhs \<noteq> None then
                (int_div (the (TryAs_Number obj_lhs)) (the (TryAs_Number obj_rhs)), c1, st1)
              else (Inl (RuntimeError ''Execute(): DIV --runtime_error --division by zero''), c1, st1))
           else (Inl (RuntimeError ''Execute(): DIV --runtime_error''), c1, st1)))"

fun Compound_loop :: "executor \<Rightarrow> stmt list \<Rightarrow> closure \<Rightarrow> state \<Rightarrow> result" where
  "Compound_loop ex [] c st = (Inr HNone, c, st)"
| "Compound_loop ex (arg # args) c st =
     (case ex arg c st of
        (Inl e, c', st') \<Rightarrow> (Inl e, c', st')
      | (Inr h, c', st') \<Rightarrow> Compound_loop ex args c' st')"

definition Compound_Execute :: "executor \<Rightarrow> stmt list \<Rightarrow> closure \<Rightarrow> state \<Rightarrow> result" where
  "Compound_Execute ex args c st = Compound_loop ex args c st"

definition Return_Execute :: "executor \<Rightarrow> stmt \<Rightarrow> closure \<Rightarrow> state \<Rightarrow> result" where
  "Return_Execute ex statement c st =
     (case ex statement c st of
        (Inl e, c', st') \<Rightarrow> (Inl e, c', st')
      | (Inr h, c', st') \<Rightarrow> (Inl (ReturnSignal h), c', st'))"

text \<open>
  ClassDefinition::Execute moves cls_ into the closure and then reads the class name
  through the moved-from (now empty) holder, a null dereference.
\<close>

definition ClassDefinition_Execute :: "holder \<Rightarrow> closure \<Rightarrow> state \<Rightarrow> result" where
  "ClassDefinition_Execute cls c st =
     (case TryAs_Class cls of
        None \<Rightarrow> (Inl Undefined, c, st)
      | Some k \<Rightarrow>
          (if class_name k = [] then (Inl (RuntimeError ''Not implemented''), c, st)
           else (Inl Undefined, c(class_name k \<mapsto> cls), st)))"

definition IfElse_Execute :: "executor \<Rightarrow> stmt \<Rightarrow> stmt \<Rightarrow> stmt option \<Rightarrow> closure \<Rightarrow> state \<Rightarrow> result" where
  "IfElse_Execute ex condition if_body else_body c st =
     (case ex condition c st of
        (Inl e, c1, st1) \<Rightarrow> (Inl e, c1, st1)
      | (Inr h, c1, st1) \<Rightarrow>
          (if IsTrue h then ex if_body c1 st1
           else (case else_body of
                   Some b \<Rightarrow> ex b c1 st1
                 | None \<Rightarrow> (Inr HNone, c1, st1))))"

text \<open>
  Or::Execute and And::Execute join the two operands with the C++ operators or-else and
  and-also, which evaluate their right operand only when the left one does not decide.
\<close>

definition Or_Execute :: "executor \<Rightarrow> stmt \<Rightarrow> stmt \<Rightarrow> closure \<Rightarrow> state \<Rightarrow> result" where
  "Or_Execute ex lhs rhs c st =
     (case ex lhs c st of
        (Inl e, c1, st1) \<Rightarrow> (Inl e, c1, st1)
      | (Inr l, c1, st1) \<Rightarrow>
          (if IsTrue l then (Inr (HBool True), c1, st1)
           else
             (case ex rhs c1 st1 of
                (Inl e, c2, st2) \<Rightarrow> (Inl e, c2, st2)
              | (Inr r, c2, st2) \<Rightarrow>
                  (if IsTrue r then (Inr (HBool True), c2, st2)
                   else (Inr (HBool False), c2, st2)))))"

definition And_Execute :: "executor \<Rightarrow> stmt \<Rightarrow> stmt \<Rightarrow> closure \<Rightarrow> state \<Rightarrow> result" where
  "And_Execute ex lhs rhs c st =
     (case ex lhs c st of
        (Inl e, c1, st1) \<Rightarrow> (Inl e, c1, st1)
      | (Inr l, c1, st1) \<Rightarrow>
          (if IsTrue l then
             (case ex rhs c1 st1 of
                (Inl e, c2, st2) \<Rightarrow> (Inl e, c2, st2)
              | (Inr r, c2, st2) \<Rightarrow>
                  (if IsTrue r then (Inr (HBool True), c2, st2)
                   else (Inr (HBool False), c2, st2)))
           else (Inr (HBool False), c1, st1)))"

definition Not_Execute :: "executor \<Rightarrow> stmt \<Rightarrow> closure \<Rightarrow> state \<Rightarrow> result" where
  "Not_Execute ex argument c st =
     (case ex argument c st of
        (Inl e, c1, st1) \<Rightarrow> (Inl e, c1, st1)
      | (Inr h, c1, st1) \<Rightarrow> (Inr (HBool (\<not> IsTrue h)), c1, st1))"

text \<open>
  Comparison::Execute. C++ does not fix the order in which the two arguments of cmp_
  are evaluated; the model evaluates lhs first.
\<close>

definition Comparison_Execute :: "executor \<Rightarrow> comparator \<Rightarrow> stmt \<Rightarrow> stmt \<Rightarrow> closure \<Rightarrow> state \<Rightarrow> result" where
  "Comparison_Execute ex cmp lhs rhs c st =
     (case operands ex lhs rhs c st of
        (Inl e, c1, st1) \<Rightarrow> (Inl e, c1, st1)
      | (Inr (l, r), c1, st1) \<Rightarrow>
          (case apply_comparator cmp ex l r st1 of
             (Inl e, st2) \<Rightarrow> (Inl e, c1, st2)
           | (Inr b, st2) \<Rightarrow> (Inr (HBool b), c1, st2)))"

text \<open>
  NewInstance::Execute on the node whose member class_instance_ lies at address a and
  was constructed with class cls.
\<close>

definition NewInstance_Execute :: "executor \<Rightarrow> nat \<Rightarrow> class \<Rightarrow> stmt list \<Rightarrow> closure \<Rightarrow> state \<Rightarrow> result" where
  "NewInstance_Execute ex a cls args c st =
     (if HasMethod cls ''__init__'' (length args) then
        (case eval_args ex args [] c st of
           (Inl e, c1, st1) \<Rightarrow> (Inl e, c1, st1)
         | (Inr actual_args, c1, st1) \<Rightarrow>
             (case Call ex a cls ''__init__'' actual_args st1 of
                (Inl e, st2) \<Rightarrow> (Inl e, c1, st2)
              | (Inr r, st2) \<Rightarrow> (Inr (HInstance a cls), c1, st2)))
      else (Inr (HInstance a cls), c, st))"

text \<open>
  MethodBody::Execute catches a thrown ObjectHolder and nothing else.
\<close>

definition MethodBody_Execute :: "executor \<Rightarrow> stmt \<Rightarrow> closure \<Rightarrow> state \<Rightarrow> result" where
  "MethodBody_Execute ex body_stmt c st =
     (case ex body_stmt c st of
        (Inl (ReturnSignal obj), c', st') \<Rightarrow> (Inr obj, c', st')
      | (Inl e, c', st') \<Rightarrow> (Inl e, c', st')
      | (Inr h, c', st') \<Rightarrow> (Inr HNone, c', st'))"

text \<open>The virtual call Statement::Execute: one step of dispatch on the node.\<close>

fun Execute_node :: "executor \<Rightarrow> printer \<Rightarrow> stmt \<Rightarrow> closure \<Rightarrow> state \<Rightarrow> result" where
  "Execute_node ex pr (NumericConst n) c st = (Inr (HNumber n), c, st)"
| "Execute_node ex pr (StringConst s) c st = (Inr (HString s), c, st)"
| "Execute_node ex pr (BoolConst b) c st = (Inr (HBool b), c, st)"
| "Execute_node ex pr NoneConst c st = (Inr HNone, c, st)"
| "Execute_node ex pr (VariableValue ids) c st = VariableValue_Execute ids c st"
| "Execute_node ex pr (Assignment var rv) c st = Assignment_Execute ex var rv c st"
| "Execute_node ex pr (FieldAssignment object field_name rv) c st =
     FieldAssignment_Execute ex object field_name rv c st"
| "Execute_node ex pr (Print args) c st = Print_Execute ex pr args c st"
| "Execute_node ex pr (MethodCall object m args) c st = MethodCall_Execute ex object m args c st"
| "Execute_node ex pr (NewInstance a cls args) c st = NewInstance_Execute ex a cls args c st"
| "Execute_node ex pr (Stringify argument) c st = Stringify_Execute ex pr argument c st"
| "Execute_node ex pr (Add lhs rhs) c st = Add_Execute ex lhs rhs c st"
| "Execute_node ex pr (Sub lhs rhs) c st = Sub_Execute ex lhs rhs c st"
| "Execute_node ex pr (Mult lhs rhs) c st = Mult_Execute ex lhs rhs c st"
| "Execute_node ex pr (Div lhs rhs) c st = Div_Execute ex lhs rhs c st"
| "Execute_node ex pr (Or lhs rhs) c st = Or_Execute ex lhs rhs c st"
| "Execute_node ex pr (And lhs rhs) c st = And_Execute ex lhs rhs c st"
| "Execute_node ex pr (Not_stmt argument) c st = Not_Execute ex argument c st"
| "Execute_node ex pr (Comparison cmp lhs rhs) c st = Comparison_Execute ex cmp lhs rhs c st"
| "Execute_node ex pr (Compound args) c st = Compound_Execute ex args c st"
| "Execute_node ex pr (MethodBody b) c st = MethodBody_Execute ex b c st"
| "Execute_node ex pr (Return statement) c st = Return_Execute ex statement c st"
| "Execute_node ex pr (ClassDefinition cls) c st = ClassDefinition_Execute cls c st"
| "Execute_node ex pr (IfElse condition if_body else_body) c st =
     IfElse_Execute ex condition if_body else_body c st"

text \<open>
  Execution with fuel: every nested Execute or Print call consumes one unit, and a call
  made with none left yields OutOfFuel. A program that recurses forever exhausts any fuel.
\<close>

fun Execute :: "nat \<Rightarrow> stmt \<Rightarrow> closure \<Rightarrow> state \<Rightarrow> result"
  and Print_holder :: "nat \<Rightarrow> holder \<Rightarrow> state \<Rightarrow> (exn + unit) \<times> string \<times> state" where
  "Execute 0 s c st = (Inl OutOfFuel, c, st)"
| "Execute (Suc n) s c st = Execute_node (Execute n) (Print_holder n) s c st"
| "Print_holder 0 h st = (Inl OutOfFuel, [], st)"
| "Print_holder (Suc n) h st = Print_object (Execute n) (Print_holder n) h st"


text \<open>
  escapes P r: the outcome r is an exception of the kind P. An executor (printer) agrees
  with another unless P when it returns the same on every call whose outcome, with the
  other one, is not an exception of the kind P.
\<close>

fun escapes :: "(exn \<Rightarrow> bool) \<Rightarrow> exn + 'a \<Rightarrow> bool" where
  "escapes P (Inl e) = P e"
| "escapes P (Inr v) = False"

fun is_fuel :: "exn \<Rightarrow> bool" where
  "is_fuel OutOfFuel = True"
| "is_fuel _ = False"

fun is_return :: "exn \<Rightarrow> bool" where
  "is_return (ReturnSignal h) = True"
| "is_return _ = False"

fun is_MethodBody :: "stmt \<Rightarrow> bool" where
  "is_MethodBody (MethodBody b) = True"
| "is_MethodBody _ = False"

fun is_Return :: "stmt \<Rightarrow> bool" where
  "is_Return (Return s) = True"
| "is_Return _ = False"

definition agrees_unless :: "(exn \<Rightarrow> bool) \<Rightarrow> executor \<Rightarrow> executor \<Rightarrow> bool" where
  "agrees_unless P ex ex' \<longleftrightarrow>
     (\<forall>s c st. \<not> escapes P (fst (ex s c st)) \<longrightarrow> ex' s c st = ex s c st)"

definition printer_agrees_unless :: "(exn \<Rightarrow> bool) \<Rightarrow> printer \<Rightarrow> printer \<Rightarrow> bool" where
  "printer_agrees_unless P pr pr' \<longleftrightarrow>
     (\<forall>h st. \<not> escapes P (fst (pr h st)) \<longrightarrow> pr' h st = pr h st)"

text \<open>
  relabel f ex: the executor ex with f applied to the holder carried by every return
  signal it raises; nothing else of its outcome is changed.
\<close>

fun relabel_exn :: "(holder \<Rightarrow> holder) \<Rightarrow> exn \<Rightarrow> exn" where
  "relabel_exn f (ReturnSignal h) = ReturnSignal (f h)"
| "relabel_exn f e = e"

definition relabel_outcome :: "(holder \<Rightarrow> holder) \<Rightarrow> (exn + 'a) \<times> 'b \<Rightarrow> (exn + 'a) \<times> 'b" where
  "relabel_outcome f r = (case r of (Inl e, x) \<Rightarrow> (Inl (relabel_exn f e), x) | (Inr v, x) \<Rightarrow> (Inr v, x))"

definition relabel :: "(holder \<Rightarrow> holder) \<Rightarrow> executor \<Rightarrow> executor" where
  "relabel f ex = (\<lambda>s c st. relabel_outcome f (ex s c st))"

definition relabel_printer :: "(holder \<Rightarrow> holder) \<Rightarrow> printer \<Rightarrow> printer" where
  "relabel_printer f pr = (\<lambda>h st. relabel_outcome f (pr h st))"

section \<open>Lexer (lexer.h, lexer.cpp)\<close>

datatype token =
    TNumber int
  | TId string
  | TChar char
  | TString string
  | TClass
  | TReturn
  | TIf
  | TElse
  | TDef
  | TNewline
  | TPrint
  | TIndent
  | TDedent
  | TAnd
  | TOr
  | TNot
  | TEq
  | TNotEq
  | TLessOrEq
  | TGreaterOrEq
  | TNone
  | TTrue
  | TFalse
  | TEof

text \<open>
  What a lexer call can throw: LexerError with its message, the std::out_of_range of
  vector::at and of stoi, and the read of the uninitialised next_c in GetEqLexeme.
\<close>

datatype lex_exn =
    LexerError string
  | OutOfRange
  | Indeterminate

text \<open>
  The input stream, over a buffer held in memory: the characters already extracted
  (latest first), those still to come, and the state flags. failbit stands for failbit
  or badbit, which the lexer never tells apart and never clears.
\<close>

record istream =
  consumed :: string
  pending :: string
  eofbit :: bool
  failbit :: bool

definition good :: "istream \<Rightarrow> bool" where
  "good s \<longleftrightarrow> \<not> eofbit s \<and> \<not> failbit s"

text \<open>istream::get(char&): no character is stored when the extraction fails.\<close>

definition stream_get :: "istream \<Rightarrow> char option \<times> istream" where
  "stream_get s =
     (if \<not> good s then (None, s\<lparr>failbit := True\<rparr>)
      else
        (case pending s of
           [] \<Rightarrow> (None, s\<lparr>eofbit := True, failbit := True\<rparr>)
         | ch # r \<Rightarrow> (Some ch, s\<lparr>consumed := ch # consumed s, pending := r\<rparr>)))"

text \<open>
  istream::unget(): clears eofbit, then does nothing if the stream is not good, else steps
  back one character (badbit at the start of the buffer).
\<close>

definition stream_unget :: "istream \<Rightarrow> istream" where
  "stream_unget s =
     (if failbit s then s\<lparr>eofbit := False\<rparr>
      else
        (case consumed s of
           [] \<Rightarrow> s\<lparr>eofbit := False, failbit := True\<rparr>
         | ch # b \<Rightarrow> s\<lparr>consumed := b, pending := ch # pending s, eofbit := False\<rparr>))"

text \<open>
  std::getline(input, line): the line read is stored in a member that is never used, so
  only the effect on the stream is kept. The line feed is extracted too; reaching the end
  of the buffer sets eofbit, and failbit as well if nothing was extracted.
\<close>

definition stream_getline :: "istream \<Rightarrow> istream" where
  "stream_getline s =
     (if \<not> good s then s\<lparr>failbit := True\<rparr>
      else
        (case pending s of
           [] \<Rightarrow> s\<lparr>eofbit := True, failbit := True\<rparr>
         | ch # r \<Rightarrow>
             (case dropWhile (\<lambda>x. x \<noteq> LF) (pending s) of
                [] \<Rightarrow> s\<lparr>consumed := rev (pending s) @ consumed s, pending := [], eofbit := True\<rparr>
              | nl # r' \<Rightarrow>
                  s\<lparr>consumed := nl # rev (takeWhile (\<lambda>x. x \<noteq> LF) (pending s)) @ consumed s,
                    pending := r'\<rparr>)))"

record lexer =
  m_c :: char
  m_input :: istream
  m_doc :: "token list"
  m_last_indent :: int
  m_dedent_chain :: bool

definition lang_chars :: "char set" where
  "lang_chars = {CHR ''.'', CHR '','', CHR ''('', CHR '')'', CHR ''*'', CHR ''/'', CHR ''+'',
                 CHR ''-'', CHR '':'', CHR '';''}"

definition marks_chars :: "char set" where
  "marks_chars = {CHR '','', CHR ''('', CHR '')'', CHR ''*'', CHR ''/'', CHR ''+'',
                  CHR ''-'', CHR '':'', CHR '';''}"

definition isdigit :: "char \<Rightarrow> bool" where
  "isdigit ch \<longleftrightarrow> CHR ''0'' \<le> ch \<and> ch \<le> CHR ''9''"

text \<open>doc_.emplace_back(t); return doc_.at(doc_.size() - 1).\<close>

definition emit :: "token \<Rightarrow> lexer \<Rightarrow> (lex_exn + token) \<times> lexer" where
  "emit t lx = (Inr t, lx\<lparr>m_doc := m_doc lx @ [t]\<rparr>)"

definition CurrentToken :: "lexer \<Rightarrow> lex_exn + token" where
  "CurrentToken lx = (if m_doc lx = [] then Inl OutOfRange else Inr (last (m_doc lx)))"

function RemoveSpaces :: "lexer \<Rightarrow> lexer" where
  "RemoveSpaces lx =
     (case stream_get (m_input lx) of
        (None, s') \<Rightarrow> lx\<lparr>m_input := s'\<rparr>
      | (Some ch, s') \<Rightarrow>
          (if ch \<noteq> CHR '' '' then lx\<lparr>m_c := ch, m_input := stream_unget s'\<rparr>
           else RemoveSpaces (lx\<lparr>m_c := ch, m_input := s'\<rparr>)))"
  by pat_completeness auto
termination
  by (relation "measure (\<lambda>lx. length (pending (m_input lx)))")
     (auto simp: stream_get_def split: if_splits list.splits)

definition RemoveComment :: "lexer \<Rightarrow> lexer" where
  "RemoveComment lx = lx\<lparr>m_input := stream_getline (m_input lx)\<rparr>"

lemma stream_getline_pending: "length (pending (stream_getline s)) \<le> length (pending s)"
proof -
  have "length (dropWhile (\<lambda>x. x \<noteq> LF) (pending s)) \<le> length (pending s)"
    by (rule length_dropWhile_le)
  then show ?thesis
    by (auto simp: stream_getline_def split: list.splits)
qed

function RemoveEmptyLines_loop :: "nat \<Rightarrow> lexer \<Rightarrow> lexer" where
  "RemoveEmptyLines_loop space_count lx =
     (case stream_get (m_input lx) of
        (None, s') \<Rightarrow> lx\<lparr>m_input := s'\<rparr>
      | (Some ch, s') \<Rightarrow>
          (if ch = CHR ''#'' then
             RemoveEmptyLines_loop space_count (lx\<lparr>m_c := ch, m_input := stream_getline s'\<rparr>)
           else if ch \<noteq> CHR '' '' \<and> ch \<noteq> LF then
             lx\<lparr>m_c := ch, m_input := (stream_unget ^^ (space_count + 1)) s'\<rparr>
           else if ch = LF then RemoveEmptyLines_loop 0 (lx\<lparr>m_c := ch, m_input := s'\<rparr>)
           else RemoveEmptyLines_loop (space_count + 1) (lx\<lparr>m_c := ch, m_input := s'\<rparr>)))"
  by pat_completeness auto
termination
proof (relation "measure (\<lambda>(n, lx). length (pending (m_input lx)))", goal_cases)
  case 1
  show ?case by simp
next
  case (2 space_count lx x y ch)
  have "length (pending (stream_getline y)) \<le> length (pending y)"
    by (rule stream_getline_pending)
  with 2 show ?case
    by (auto simp: stream_get_def split: if_splits list.splits)
next
  case 3
  then show ?case by (auto simp: stream_get_def split: if_splits list.splits)
next
  case 4
  then show ?case by (auto simp: stream_get_def split: if_splits list.splits)
qed

definition RemoveEmptyLines :: "lexer \<Rightarrow> lexer" where
  "RemoveEmptyLines lx = RemoveEmptyLines_loop 0 lx"


text \<open>
  GetEqLexeme. When the stream yields no further character, next_c is compared without
  ever having been assigned.
\<close>

definition GetEqLexeme :: "lexer \<Rightarrow> (lex_exn + token) \<times> lexer" where
  "GetEqLexeme lx =
     (case stream_get (m_input lx) of
        (None, s') \<Rightarrow> (Inl Indeterminate, lx\<lparr>m_input := s'\<rparr>)
      | (Some next_c, s') \<Rightarrow>
          (if next_c = CHR ''='' then
             (let lx1 = lx\<lparr>m_input := s'\<rparr>;
                  lx2 = (if m_c lx = CHR ''='' then lx1\<lparr>m_doc := m_doc lx1 @ [TEq]\<rparr>
                         else if m_c lx = CHR ''!'' then lx1\<lparr>m_doc := m_doc lx1 @ [TNotEq]\<rparr>
                         else if m_c lx = CHR ''<'' then lx1\<lparr>m_doc := m_doc lx1 @ [TLessOrEq]\<rparr>
                         else if m_c lx = CHR ''>'' then lx1\<lparr>m_doc := m_doc lx1 @ [TGreaterOrEq]\<rparr>
                         else lx1);
                  lx3 = RemoveSpaces lx2
              in (CurrentToken lx3, lx3))
           else
             (let lx1 = lx\<lparr>m_input := stream_unget s', m_doc := m_doc lx @ [TChar (m_c lx)]\<rparr>;
                  lx2 = RemoveSpaces lx1
              in (CurrentToken lx2, lx2))))"

definition GetCharLexeme :: "lexer \<Rightarrow> (lex_exn + token) \<times> lexer" where
  "GetCharLexeme lx =
     (let lx1 = RemoveSpaces (lx\<lparr>m_doc := m_doc lx @ [TChar (m_c lx)]\<rparr>)
      in (CurrentToken lx1, lx1))"

text \<open>
  GetStringLexeme. The test for a line feed sits in the branch taken when the character
  equals the end marker (a quote), where it cannot succeed.
\<close>

function GetStringLexeme_loop :: "char \<Rightarrow> string \<Rightarrow> lexer \<Rightarrow> (lex_exn + token) \<times> lexer" where
  "GetStringLexeme_loop end_marker string_lexeme lx =
     (case stream_get (m_input lx) of
        (None, s') \<Rightarrow>
          (Inl (LexerError ''GetStringLexeme(): Wrong string format''), lx\<lparr>m_input := s'\<rparr>)
      | (Some ch, s') \<Rightarrow>
          (if ch \<noteq> end_marker then
             (if ch = CHR 0x5C then
                (case stream_get s' of
                   (None, s'') \<Rightarrow>
                     GetStringLexeme_loop end_marker (string_lexeme @ [ch])
                       (lx\<lparr>m_c := ch, m_input := s''\<rparr>)
                 | (Some e, s'') \<Rightarrow>
                     (let e' = (if e = CHR ''n'' then LF else if e = CHR ''t'' then CHR 0x09 else e)
                      in GetStringLexeme_loop end_marker (string_lexeme @ [e'])
                           (lx\<lparr>m_c := e', m_input := s''\<rparr>)))
              else GetStringLexeme_loop end_marker (string_lexeme @ [ch]) (lx\<lparr>m_c := ch, m_input := s'\<rparr>))
           else if ch = LF then
             (Inl (LexerError ''GetStringLexeme(): Wrong string format''), lx\<lparr>m_c := ch, m_input := s'\<rparr>)
           else
             (let lx1 = RemoveSpaces (lx\<lparr>m_c := ch, m_input := s', m_doc := m_doc lx @ [TString string_lexeme]\<rparr>)
              in (CurrentToken lx1, lx1))))"
  by pat_completeness auto
termination
  by (relation "measure (\<lambda>(m, l, lx). length (pending (m_input lx)))")
     (auto simp: stream_get_def split: if_splits list.splits)

definition GetStringLexeme :: "lexer \<Rightarrow> (lex_exn + token) \<times> lexer" where
  "GetStringLexeme lx = GetStringLexeme_loop (m_c lx) [] lx"

text \<open>std::stoi on a string of decimal digits: out_of_range above INT_MAX.\<close>

definition digits_value :: "string \<Rightarrow> int" where
  "digits_value ds = foldl (\<lambda>acc d. 10 * acc + (of_char d - 48)) 0 ds"

definition stoi :: "string \<Rightarrow> lex_exn + int" where
  "stoi ds = (if digits_value ds \<le> 2147483647 then Inr (digits_value ds) else Inl OutOfRange)"

text \<open>
  The loop of GetNumberLexeme; its result tells whether the loop ended normally (by
  break or on a failed get) or threw.
\<close>

function GetNumberLexeme_loop :: "string \<Rightarrow> lexer \<Rightarrow> (lex_exn + string) \<times> lexer" where
  "GetNumberLexeme_loop number_lexeme lx =
     (case stream_get (m_input lx) of
        (None, s') \<Rightarrow> (Inr number_lexeme, lx\<lparr>m_input := s'\<rparr>)
      | (Some ch, s') \<Rightarrow>
          (if ch \<noteq> CHR '' '' \<and> ch \<noteq> CHR ''#'' \<and> ch \<noteq> LF \<and> ch \<notin> marks_chars then
             (if isdigit ch then
                GetNumberLexeme_loop (number_lexeme @ [ch]) (lx\<lparr>m_c := ch, m_input := s'\<rparr>)
              else
                (Inl (LexerError ''GetNumberLexeme(): Wrong number format''),
                 lx\<lparr>m_c := ch, m_input := s'\<rparr>))
           else (Inr number_lexeme, lx\<lparr>m_c := ch, m_input := s'\<rparr>)))"
  by pat_completeness auto
termination
  by (relation "measure (\<lambda>(l, lx). length (pending (m_input lx)))")
     (auto simp: stream_get_def split: if_splits list.splits)

definition GetNumberLexeme :: "lexer \<Rightarrow> (lex_exn + token) \<times> lexer" where
  "GetNumberLexeme lx =
     (case GetNumberLexeme_loop [m_c lx] lx of
        (Inl e, lx1) \<Rightarrow> (Inl e, lx1)
      | (Inr number_lexeme, lx1) \<Rightarrow>
          (let lx2 = lx1\<lparr>m_input := stream_unget (m_input lx1)\<rparr>
           in case stoi number_lexeme of
                Inl e \<Rightarrow> (Inl e, lx2)
              | Inr v \<Rightarrow>
                  (let lx3 = RemoveSpaces (lx2\<lparr>m_doc := m_doc lx2 @ [TNumber v]\<rparr>)
                   in (CurrentToken lx3, lx3))))"

function GetIdOrKeyLexeme_loop :: "string \<Rightarrow> lexer \<Rightarrow> string \<times> lexer" where
  "GetIdOrKeyLexeme_loop str_lexeme lx =
     (case stream_get (m_input lx) of
        (None, s') \<Rightarrow> (str_lexeme, lx\<lparr>m_input := s'\<rparr>)
      | (Some ch, s') \<Rightarrow>
          (if ch \<noteq> CHR '' '' \<and> ch \<noteq> CHR ''#'' \<and> ch \<noteq> LF \<and> ch \<notin> lang_chars then
             GetIdOrKeyLexeme_loop (str_lexeme @ [ch]) (lx\<lparr>m_c := ch, m_input := s'\<rparr>)
           else (str_lexeme, lx\<lparr>m_c := ch, m_input := stream_unget s'\<rparr>)))"
  by pat_completeness auto
termination
  by (relation "measure (\<lambda>(l, lx). length (pending (m_input lx)))")
     (auto simp: stream_get_def split: if_splits list.splits)

definition keyword_or_id :: "string \<Rightarrow> token" where
  "keyword_or_id str_lexeme =
     (if str_lexeme = ''class'' then TClass
      else if str_lexeme = ''return'' then TReturn
      else if str_lexeme = ''if'' then TIf
      else if str_lexeme = ''else'' then TElse
      else if str_lexeme = ''def'' then TDef
      else if str_lexeme = ''print'' then TPrint
      else if str_lexeme = ''and'' then TAnd
      else if str_lexeme = ''or'' then TOr
      else if str_lexeme = ''not'' then TNot
      else if str_lexeme = ''None'' then TNone
      else if str_lexeme = ''True'' then TTrue
      else if str_lexeme = ''False'' then TFalse
      else TId str_lexeme)"

definition GetIdOrKeyLexeme :: "lexer \<Rightarrow> (lex_exn + token) \<times> lexer" where
  "GetIdOrKeyLexeme lx =
     (case GetIdOrKeyLexeme_loop [m_c lx] lx of
        (str_lexeme, lx1) \<Rightarrow>
          (let lx2 = RemoveSpaces (lx1\<lparr>m_doc := m_doc lx1 @ [keyword_or_id str_lexeme]\<rparr>)
           in (CurrentToken lx2, lx2)))"

text \<open>
  IsIndentLexeme, entered after NextToken has extracted the first space of the line
  (indent_count starts at 1). It compares indent_count / 2 with last_indent_ and has no
  test of the parity of the count.
\<close>

function IsIndentLexeme_loop :: "int \<Rightarrow> lexer \<Rightarrow> bool \<times> lexer" where
  "IsIndentLexeme_loop indent_count lx =
     (case stream_get (m_input lx) of
        (None, s') \<Rightarrow> (False, lx\<lparr>m_input := s'\<rparr>)
      | (Some ch, s') \<Rightarrow>
          (if ch = CHR '' '' then
             (if (indent_count + 1) div 2 - 1 = m_last_indent lx then
                (True, lx\<lparr>m_c := ch, m_input := s', m_last_indent := m_last_indent lx + 1,
                          m_doc := m_doc lx @ [TIndent]\<rparr>)
              else IsIndentLexeme_loop (indent_count + 1) (lx\<lparr>m_c := ch, m_input := s'\<rparr>))
           else
             (if indent_count div 2 = m_last_indent lx then (False, lx\<lparr>m_c := ch, m_input := s'\<rparr>)
              else
                (True, lx\<lparr>m_c := ch,
                          m_input := stream_unget
                            (if indent_count div 2 + 1 \<noteq> m_last_indent lx
                             then stream_unget (stream_unget s') else s'),
                          m_last_indent := m_last_indent lx - 1,
                          m_doc := m_doc lx @ [TDedent]\<rparr>))))"
  by pat_completeness auto
termination
  by (relation "measure (\<lambda>(n, lx). length (pending (m_input lx)))")
     (auto simp: stream_get_def split: if_splits list.splits)

definition IsIndentLexeme :: "lexer \<Rightarrow> bool \<times> lexer" where
  "IsIndentLexeme lx = IsIndentLexeme_loop 1 lx"

text \<open>The chain of tests at the end of ParseNextToken, on the character c_.\<close>

definition ParseNextToken_lexeme :: "lexer \<Rightarrow> (lex_exn + token) \<times> lexer" where
  "ParseNextToken_lexeme lx =
     (if m_c lx = CHR ''='' \<or> m_c lx = CHR ''!'' \<or> m_c lx = CHR ''<'' \<or> m_c lx = CHR ''>''
        then GetEqLexeme lx
      else if m_c lx \<in> lang_chars then GetCharLexeme lx
      else if m_c lx = CHR 0x27 \<or> m_c lx = CHR 0x22 then GetStringLexeme lx
      else if isdigit (m_c lx) then GetNumberLexeme lx
      else if (of_char (m_c lx) :: nat) = 95
              \<or> (64 < (of_char (m_c lx) :: nat) \<and> (of_char (m_c lx) :: nat) < 91)
              \<or> (96 < (of_char (m_c lx) :: nat) \<and> (of_char (m_c lx) :: nat) < 123)
        then GetIdOrKeyLexeme lx
      else if m_c lx = CHR '' '' then (Inl (LexerError ''ParseNextToken(): FLAG error-- ''), lx)
      else (Inl (LexerError (''ParseNextToken(): Unknown error-- '' @ [m_c lx])), lx))"

definition ParseNextToken :: "lexer \<Rightarrow> (lex_exn + token) \<times> lexer" where
  "ParseNextToken lx =
     (if m_c lx = CHR ''#'' then
        (let lx1 = RemoveComment lx
         in case CurrentToken lx1 of
              Inl e \<Rightarrow> (Inl e, lx1)
            | Inr t \<Rightarrow>
                (if t \<noteq> TNewline then emit TNewline lx1 else ParseNextToken_lexeme lx1))
      else if m_c lx = LF then emit TNewline lx
      else ParseNextToken_lexeme lx)"

text \<open>
  NextToken. CurrentToken() is doc_.at(doc_.size() - 1) and throws on the empty vector;
  the conditions below evaluate it exactly where the C++ operators do.
\<close>

definition NextToken_eof :: "lexer \<Rightarrow> (lex_exn + token) \<times> lexer" where
  "NextToken_eof lx =
     (if m_last_indent lx > 0 then
        emit TDedent (lx\<lparr>m_last_indent := m_last_indent lx - 1\<rparr>)
      else if m_doc lx \<noteq> [] then
        (if last (m_doc lx) \<noteq> TNewline \<and> last (m_doc lx) \<noteq> TEof \<and> last (m_doc lx) \<noteq> TDedent then
           emit TNewline lx
         else if last (m_doc lx) \<noteq> TEof then emit TEof lx
         else (Inr (last (m_doc lx)), lx))
      else emit TEof lx)"

definition NextToken_parse :: "lexer \<Rightarrow> (lex_exn + token) \<times> lexer" where
  "NextToken_parse lx = ParseNextToken (lx\<lparr>m_dedent_chain := False\<rparr>)"

definition NextToken :: "lexer \<Rightarrow> (lex_exn + token) \<times> lexer" where
  "NextToken lx0 =
     (let lx = (if m_doc lx0 = [] \<or> last (m_doc lx0) = TNewline then RemoveEmptyLines lx0 else lx0)
      in case stream_get (m_input lx) of
           (None, s') \<Rightarrow> NextToken_eof (lx\<lparr>m_input := s'\<rparr>)
         | (Some ch, s') \<Rightarrow>
             (let lx1 = lx\<lparr>m_c := ch, m_input := s'\<rparr>
              in if ch = CHR '' '' then
                   (case CurrentToken lx1 of
                      Inl e \<Rightarrow> (Inl e, lx1)
                    | Inr t \<Rightarrow>
                        (if t = TNewline then
                           (case IsIndentLexeme lx1 of
                              (True, lx2) \<Rightarrow> (CurrentToken lx2, lx2)
                            | (False, lx2) \<Rightarrow> NextToken_parse lx2)
                         else NextToken_parse lx1))
                 else if m_last_indent lx1 > 0 then
                   (case CurrentToken lx1 of
                      Inl e \<Rightarrow> (Inl e, lx1)
                    | Inr t \<Rightarrow>
                        (if t = TNewline \<or> m_dedent_chain lx1 then
                           emit TDedent
                             (lx1\<lparr>m_dedent_chain := True, m_input := stream_unget s',
                                  m_last_indent := m_last_indent lx1 - 1\<rparr>)
                         else NextToken_parse lx1))
                 else NextToken_parse lx1))"

text \<open>The constructor: an empty token vector, then the first NextToken().\<close>

definition new_istream :: "string \<Rightarrow> istream" where
  "new_istream text = \<lparr>consumed = [], pending = text, eofbit = False, failbit = False\<rparr>"

definition Lexer :: "istream \<Rightarrow> (lex_exn + token) \<times> lexer" where
  "Lexer inp =
     NextToken \<lparr>m_c = CHR 0x00, m_input = inp, m_doc = [], m_last_indent = 0, m_dedent_chain = False\<rparr>"

text \<open>
  Token::Is for the kind of the template argument, given by any token of that kind, and
  the two-argument templates Expect and ExpectNext, whose expected kind and value are
  given as the token of that kind carrying the value.
\<close>

fun token_index :: "token \<Rightarrow> nat" where
  "token_index (TNumber v) = 0"
| "token_index (TId v) = 1"
| "token_index (TChar v) = 2"
| "token_index (TString v) = 3"
| "token_index TClass = 4"
| "token_index TReturn = 5"
| "token_index TIf = 6"
| "token_index TElse = 7"
| "token_index TDef = 8"
| "token_index TNewline = 9"
| "token_index TPrint = 10"
| "token_index TIndent = 11"
| "token_index TDedent = 12"
| "token_index TAnd = 13"
| "token_index TOr = 14"
| "token_index TNot = 15"
| "token_index TEq = 16"
| "token_index TNotEq = 17"
| "token_index TLessOrEq = 18"
| "token_index TGreaterOrEq = 19"
| "token_index TNone = 20"
| "token_index TTrue = 21"
| "token_index TFalse = 22"
| "token_index TEof = 23"

definition Is :: "token \<Rightarrow> token \<Rightarrow> bool" where
  "Is kind t \<longleftrightarrow> token_index t = token_index kind"

definition Expect :: "token \<Rightarrow> lexer \<Rightarrow> lex_exn + token" where
  "Expect kind lx =
     (case CurrentToken lx of
        Inl e \<Rightarrow> Inl e
      | Inr t \<Rightarrow>
          (if Is kind t then Inr t
           else Inl (LexerError ''Expect(): Wrong current token type'')))"

definition Expect_value :: "token \<Rightarrow> lexer \<Rightarrow> lex_exn + unit" where
  "Expect_value expected lx =
     (case CurrentToken lx of
        Inl e \<Rightarrow> Inl e
      | Inr t \<Rightarrow>
          (if Is expected t then
             (if t \<noteq> expected then Inl (LexerError ''Expect(): Wrong current token type or value'')
              else Inr ())
           else Inr ()))"

definition ExpectNext :: "token \<Rightarrow> lexer \<Rightarrow> (lex_exn + token) \<times> lexer" where
  "ExpectNext kind lx =
     (case NextToken lx of
        (Inl e, lx1) \<Rightarrow> (Inl e, lx1)
      | (Inr t, lx1) \<Rightarrow>
          (if Is kind t then (Inr t, lx1)
           else (Inl (LexerError ''ExpectNext(): Wrong next token type''), lx1)))"

definition ExpectNext_value :: "token \<Rightarrow> lexer \<Rightarrow> (lex_exn + unit) \<times> lexer" where
  "ExpectNext_value expected lx =
     (case NextToken lx of
        (Inl e, lx1) \<Rightarrow> (Inl e, lx1)
      | (Inr t, lx1) \<Rightarrow>
          (if Is expected t then
             (if t \<noteq> expected then
                (Inl (LexerError ''ExpectNext(): Wrong next token type or value''), lx1)
              else (Inr (), lx1))
           else (Inr (), lx1)))"

text \<open>Repeated NextToken calls, stopping at the first exception.\<close>

fun advance :: "nat \<Rightarrow> (lex_exn + token) \<times> lexer \<Rightarrow> (lex_exn + token) \<times> lexer" where
  "advance 0 r = r"
| "advance (Suc n) (Inl e, lx) = (Inl e, lx)"
| "advance (Suc n) (Inr t, lx) = advance n (NextToken lx)"

definition tokens_after :: "nat \<Rightarrow> string \<Rightarrow> (lex_exn + token) \<times> token list" where
  "tokens_after n text =
     (case advance n (Lexer (new_istream text)) of (r, lx) \<Rightarrow> (r, m_doc lx))"

section \<open>Inputs and reference behaviours used in the statements\<close>

definition empty_closure :: closure where
  "empty_closure = Map.empty"

definition initial_state :: state where
  "initial_state = \<lparr>heap = (\<lambda>a. Map.empty), out = []\<rparr>"

definition assign_x :: stmt where
  "assign_x = Assignment ''x'' (NumericConst 1)"

text \<open>
  Or as the specification words it (both operands are evaluated, whatever the left one
  yields), for comparison with Or_Execute.
\<close>

definition Or_both_operands :: "executor \<Rightarrow> stmt \<Rightarrow> stmt \<Rightarrow> closure \<Rightarrow> state \<Rightarrow> result" where
  "Or_both_operands ex lhs rhs c st =
     (case operands ex lhs rhs c st of
        (Inl e, c1, st1) \<Rightarrow> (Inl e, c1, st1)
      | (Inr (l, r), c1, st1) \<Rightarrow> (Inr (HBool (IsTrue l \<or> IsTrue r)), c1, st1))"

definition lt_false_class :: "class" where
  "lt_false_class =
     Class ''A'' [Method ''__lt__'' [''other''] (MethodBody (Return (BoolConst False)))] None"

definition lt_true_class :: "class" where
  "lt_true_class =
     Class ''B'' [Method ''__lt__'' [''other''] (MethodBody (Return (BoolConst True)))] None"

definition plain_class :: "class" where
  "plain_class = Class ''Person'' [Method ''set_name'' [''name''] (MethodBody (Compound []))] None"

definition indented_unterminated :: string where
  "indented_unterminated = ''a:'' @ [LF] @ ''  y''"

definition one_space_line :: string where
  "one_space_line = ''x'' @ [LF] @ '' y'' @ [LF]"

definition broken_string :: string where
  "broken_string = [CHR 0x27] @ ''a'' @ [LF] @ ''b'' @ [CHR 0x27]"

definition unterminated_string :: string where
  "unterminated_string = [CHR 0x27] @ ''ab''"

text \<open>A state in which the instance at address 0 has the single field y = 5.\<close>

definition point_state :: state where
  "point_state = \<lparr>heap = (\<lambda>a. if a = 0 then [''y'' \<mapsto> HNumber 5] else Map.empty), out = []\<rparr>"

definition odd_dedent_text :: string where
  "odd_dedent_text = ''a:'' @ [LF] @ ''  b'' @ [LF] @ '' c'' @ [LF]"

text \<open>
  The lines that RemoveEmptyLines is followed through: a line of spaces only (possibly
  empty), or a comment whose hash mark is the first character of the line. skipped_text
  is the text of such lines, each with its line feed.
\<close>

fun skipped_line :: "string \<Rightarrow> bool" where
  "skipped_line [] = True"
| "skipped_line (x # t) =
     (if x = CHR ''#'' then LF \<notin> set t else list_all (\<lambda>y. y = CHR '' '') (x # t))"

definition skipped_text :: "string list \<Rightarrow> string" where
  "skipped_text ls = concat (map (\<lambda>l. l @ [LF]) ls)"

definition four_space_line :: string where
  "four_space_line = ''x'' @ [LF] @ ''    y'' @ [LF]"

definition indented_first_line :: string where
  "indented_first_line = ''  x'' @ [LF]"

definition indented_comment :: string where
  "indented_comment = ''x'' @ [LF] @ ''  #c'' @ [LF] @ '' y'' @ [LF]"

definition skipped_lines_text :: string where
  "skipped_lines_text = ''x'' @ [LF] @ ''   '' @ [LF] @ ''#c'' @ [LF] @ '' y'' @ [LF]"

text \<open>Lexer states reached just after a Newline token, before an indented line.\<close>

definition lexer_at_indent :: lexer where
  "lexer_at_indent = snd (advance 2 (Lexer (new_istream indented_unterminated)))"

definition lexer_at_odd_dedent :: lexer where
  "lexer_at_odd_dedent = snd (advance 5 (Lexer (new_istream odd_dedent_text)))"

definition lexer_at_skipped :: lexer where
  "lexer_at_skipped = snd (advance 1 (Lexer (new_istream skipped_lines_text)))"

text \<open>
  Executors that turn every return signal of a given one into a normal completion, and
  the relabelling that empties the holder of a signal.
\<close>

definition without_return :: "executor \<Rightarrow> executor" where
  "without_return ex =
     (\<lambda>s c st. if escapes is_return (fst (ex s c st)) then (Inr HNone, c, st) else ex s c st)"

definition printer_without_return :: "printer \<Rightarrow> printer" where
  "printer_without_return pr =
     (\<lambda>h st. if escapes is_return (fst (pr h st)) then (Inr (), [], st) else pr h st)"

definition drop_holder :: "holder \<Rightarrow> holder" where
  "drop_holder h = HNone"

definition return_in_if :: stmt where
  "return_in_if = IfElse (BoolConst True) (Return (NumericConst 3)) None"

definition skipped_return :: stmt where
  "skipped_return = IfElse (BoolConst False) (Return (NumericConst 3)) None"

definition first_return_wins :: stmt where
  "first_return_wins = Compound [return_in_if, Return (NumericConst 4)]"





section \<open>Agreement of executors and fuel\<close>

text \<open>
  Each node gives the same result with any executor and printer for its children that
  agree with the given ones unless P, provided its own outcome is not an exception of
  the kind P (for MethodBody, provided P is not a return signal). With P = is_fuel this
  is monotonicity in the fuel: a call that completes within some fuel returns the same
  result, closure and state with any larger fuel, so the results stated below do not
  depend on the fuel chosen.
\<close>

lemma agrees_Inr: "agrees_unless P ex ex' \<Longrightarrow> ex s c st = (Inr v, c', st') \<Longrightarrow> ex' s c st = (Inr v, c', st')"
  by (auto simp: agrees_unless_def)

lemma agrees_Inl: "agrees_unless P ex ex' \<Longrightarrow> ex s c st = (Inl e, c', st') \<Longrightarrow> \<not> P e \<Longrightarrow> ex' s c st = (Inl e, c', st')"
  by (auto simp: agrees_unless_def)

lemma printer_agrees_Inr: "printer_agrees_unless P pr pr' \<Longrightarrow> pr h st = (Inr v, t, st') \<Longrightarrow> pr' h st = (Inr v, t, st')"
  by (auto simp: printer_agrees_unless_def)

lemma printer_agrees_Inl: "printer_agrees_unless P pr pr' \<Longrightarrow> pr h st = (Inl e, t, st') \<Longrightarrow> \<not> P e \<Longrightarrow> pr' h st = (Inl e, t, st')"
  by (auto simp: printer_agrees_unless_def)

lemmas ext = agrees_Inr agrees_Inl printer_agrees_Inr printer_agrees_Inl

lemma agreesD:
  "agrees_unless P ex ex' \<Longrightarrow> ex s c st = (x, c', st') \<Longrightarrow> \<not> escapes P x \<Longrightarrow> ex' s c st = (x, c', st')"
  by (auto simp: agrees_unless_def)

lemma Call_mono:
  assumes "agrees_unless P ex ex'" and ne: "\<not> escapes P (fst (Call ex a cls m args st))"
  shows "Call ex' a cls m args st = Call ex a cls m args st"
proof (cases "HasMethod cls m (length args)")
  case False
  then show ?thesis by (simp add: Call_def)
next
  case True
  show ?thesis
  proof (cases "GetMethod cls m")
    case None
    with True show ?thesis by (simp add: Call_def)
  next
    case (Some mp)
    define A where "A = fold (\<lambda>(p, v) cl. cl(p \<mapsto> v)) (zip (formal_params mp) args) [''self'' \<mapsto> HInstance a cls]"
    have unf: "Call f a cls m args st = (case f (body mp) A st of (r, u, st') \<Rightarrow> (r, st'))" for f
      using True Some by (simp add: Call_def A_def)
    obtain x c' st' where e: "ex (body mp) A st = (x, c', st')"
      by (cases "ex (body mp) A st")
    with ne have "\<not> escapes P x"
      by (cases x) (auto simp: unf)
    from agreesD [OF assms(1) e this] e show ?thesis
      by (simp add: unf)
  qed
qed

lemma eval_args_mono:
  assumes "agrees_unless P ex ex'"
  shows "\<not> escapes P (fst (eval_args ex args acc c st)) \<Longrightarrow> eval_args ex' args acc c st = eval_args ex args acc c st"
proof (induction args arbitrary: acc c st)
  case Nil
  then show ?case by simp
next
  case (Cons a args)
  obtain x c' st' where e: "ex a c st = (x, c', st')" by (cases "ex a c st")
  show ?case
  proof (cases x)
    case (Inl err)
    with Cons.prems e have "\<not> P err" by auto
    with agrees_Inl [OF assms] e Inl show ?thesis by simp
  next
    case (Inr v)
    with Cons.prems e have "\<not> escapes P (fst (eval_args ex args (acc @ [v]) c' st'))" by simp
    from Cons.IH [OF this] agrees_Inr [OF assms] e Inr show ?thesis by simp
  qed
qed

lemma Compound_loop_mono:
  assumes "agrees_unless P ex ex'"
  shows "\<not> escapes P (fst (Compound_loop ex args c st)) \<Longrightarrow> Compound_loop ex' args c st = Compound_loop ex args c st"
proof (induction args arbitrary: c st)
  case Nil
  then show ?case by simp
next
  case (Cons a args)
  obtain x c' st' where e: "ex a c st = (x, c', st')" by (cases "ex a c st")
  show ?case
  proof (cases x)
    case (Inl err)
    with Cons.prems e have "\<not> P err" by auto
    with agrees_Inl [OF assms] e Inl show ?thesis by simp
  next
    case (Inr v)
    with Cons.prems e have "\<not> escapes P (fst (Compound_loop ex args c' st'))" by simp
    from Cons.IH [OF this] agrees_Inr [OF assms] e Inr show ?thesis by simp
  qed
qed


lemma Print_loop_mono:
  assumes "agrees_unless P ex ex'" and "printer_agrees_unless P pr pr'"
  shows "\<not> escapes P (fst (Print_loop ex pr args ff oh c st)) \<Longrightarrow>
         Print_loop ex' pr' args ff oh c st = Print_loop ex pr args ff oh c st"
proof (induction args arbitrary: ff oh c st)
  case Nil
  then show ?case by simp
next
  case (Cons a args)
  let ?st0 = "if ff then st else st\<lparr>out := out st @ '' ''\<rparr>"
  obtain x c' st' where e: "ex a c ?st0 = (x, c', st')" by (cases "ex a c ?st0")
  show ?case
  proof (cases x)
    case (Inl err)
    with Cons.prems e have "\<not> P err" by auto
    with agrees_Inl [OF assms(1)] e Inl show ?thesis by simp
  next
    case (Inr h)
    note e' = agrees_Inr [OF assms(1) e [unfolded Inr]]
    show ?thesis
    proof (cases "h = HNone")
      case True
      with Cons.prems e Inr
      have "\<not> escapes P (fst (Print_loop ex pr args False h c' (st'\<lparr>out := out st' @ ''None''\<rparr>)))"
        by simp
      from Cons.IH [OF this] e e' Inr True show ?thesis by simp
    next
      case False
      obtain y tx st'' where p: "pr h st' = (y, tx, st'')" by (cases "pr h st'")
      show ?thesis
      proof (cases y)
        case (Inl err)
        with Cons.prems e Inr False p have "\<not> P err" by auto
        with printer_agrees_Inl [OF assms(2)] p Inl e e' Inr False show ?thesis by simp
      next
        case (Inr u)
        with Cons.prems e \<open>x = Inr h\<close> False p
        have "\<not> escapes P (fst (Print_loop ex pr args False h c' (st''\<lparr>out := out st'' @ tx\<rparr>)))"
          by simp
        from Cons.IH [OF this] printer_agrees_Inr [OF assms(2)] p Inr e e' \<open>x = Inr h\<close> False
        show ?thesis by simp
      qed
    qed
  qed
qed

lemma Print_object_mono:
  assumes "agrees_unless P ex ex'" and "printer_agrees_unless P pr pr'"
    and ne: "\<not> escapes P (fst (Print_object ex pr h st))"
  shows "Print_object ex' pr' h st = Print_object ex pr h st"
proof (cases h)
  case (HInstance a cls)
  show ?thesis
  proof (cases "HasMethod cls ''__str__'' 0")
    case False
    with HInstance show ?thesis by (simp add: Print_object_def)
  next
    case True
    obtain r st' where call: "Call ex a cls ''__str__'' [] st = (r, st')"
      by (cases "Call ex a cls ''__str__'' [] st")
    with ne HInstance True have r: "\<not> escapes P r"
      by (cases r) (auto simp: Print_object_def split: sum.splits)
    with call Call_mono [OF assms(1), of a cls "''__str__''" "[]" st]
    have call': "Call ex' a cls ''__str__'' [] st = (r, st')" by simp
    show ?thesis
    proof (cases r)
      case (Inl e)
      with HInstance True call call' show ?thesis by (simp add: Print_object_def)
    next
      case (Inr v)
      with ne HInstance True call have "\<not> escapes P (fst (pr v st'))"
        by (simp add: Print_object_def)
      with assms(2) have "pr' v st' = pr v st'" by (simp add: printer_agrees_unless_def)
      with Inr HInstance True call call' show ?thesis by (simp add: Print_object_def)
    qed
  qed
qed (simp_all add: Print_object_def)

lemma operands_mono:
  assumes "agrees_unless P ex ex'"
  shows "\<not> escapes P (fst (operands ex l r c st)) \<Longrightarrow> operands ex' l r c st = operands ex l r c st"
  using assms
  by (auto simp: operands_def ext split: prod.splits sum.splits if_splits)

lemma Assignment_mono:
  assumes "agrees_unless P ex ex'"
  shows "\<not> escapes P (fst (Assignment_Execute ex v rv c st)) \<Longrightarrow>
         Assignment_Execute ex' v rv c st = Assignment_Execute ex v rv c st"
  using assms
  by (auto simp: Assignment_Execute_def ext split: prod.splits sum.splits)

lemma FieldAssignment_mono:
  assumes "agrees_unless P ex ex'"
  shows "\<not> escapes P (fst (FieldAssignment_Execute ex ob f rv c st)) \<Longrightarrow>
         FieldAssignment_Execute ex' ob f rv c st = FieldAssignment_Execute ex ob f rv c st"
  using assms
  by (auto simp: FieldAssignment_Execute_def ext split: prod.splits sum.splits)

lemma Return_mono:
  assumes "agrees_unless P ex ex'"
  shows "\<not> escapes P (fst (Return_Execute ex s c st)) \<Longrightarrow>
         Return_Execute ex' s c st = Return_Execute ex s c st"
  using assms
  by (auto simp: Return_Execute_def ext split: prod.splits sum.splits)

lemma MethodBody_mono:
  assumes "agrees_unless P ex ex'" and "\<And>h. \<not> P (ReturnSignal h)"
  shows "\<not> escapes P (fst (MethodBody_Execute ex s c st)) \<Longrightarrow>
         MethodBody_Execute ex' s c st = MethodBody_Execute ex s c st"
  using assms
  by (auto simp: MethodBody_Execute_def ext split: prod.splits sum.splits exn.splits)

lemma Not_mono:
  assumes "agrees_unless P ex ex'"
  shows "\<not> escapes P (fst (Not_Execute ex s c st)) \<Longrightarrow>
         Not_Execute ex' s c st = Not_Execute ex s c st"
  using assms
  by (auto simp: Not_Execute_def ext split: prod.splits sum.splits)

lemma Or_mono:
  assumes "agrees_unless P ex ex'"
  shows "\<not> escapes P (fst (Or_Execute ex l r c st)) \<Longrightarrow> Or_Execute ex' l r c st = Or_Execute ex l r c st"
  using assms
  by (auto simp: Or_Execute_def ext split: prod.splits sum.splits if_splits)

lemma And_mono:
  assumes "agrees_unless P ex ex'"
  shows "\<not> escapes P (fst (And_Execute ex l r c st)) \<Longrightarrow> And_Execute ex' l r c st = And_Execute ex l r c st"
  using assms
  by (auto simp: And_Execute_def ext split: prod.splits sum.splits if_splits)

lemma IfElse_mono:
  assumes "agrees_unless P ex ex'"
  shows "\<not> escapes P (fst (IfElse_Execute ex cnd a b c st)) \<Longrightarrow>
         IfElse_Execute ex' cnd a b c st = IfElse_Execute ex cnd a b c st"
proof -
  assume ne: "\<not> escapes P (fst (IfElse_Execute ex cnd a b c st))"
  obtain x c1 st1 where e: "ex cnd c st = (x, c1, st1)" by (cases "ex cnd c st")
  show ?thesis
  proof (cases x)
    case (Inl err)
    with ne e have "\<not> P err" by (auto simp: IfElse_Execute_def)
    with agrees_Inl [OF assms] e Inl show ?thesis by (simp add: IfElse_Execute_def)
  next
    case (Inr h)
    note e' = agrees_Inr [OF assms e [unfolded Inr]]
    from ne e Inr e' assms show ?thesis
      by (auto simp: IfElse_Execute_def agrees_unless_def split: option.splits)
  qed
qed

lemma Sub_mono:
  assumes "agrees_unless P ex ex'" and ne: "\<not> escapes P (fst (Sub_Execute ex l r c st))"
  shows "Sub_Execute ex' l r c st = Sub_Execute ex l r c st"
proof -
  from ne have "\<not> escapes P (fst (operands ex l r c st))"
    by (auto simp: Sub_Execute_def split: prod.splits sum.splits)
  from operands_mono [OF assms(1) this] show ?thesis by (simp add: Sub_Execute_def)
qed

lemma Mult_mono:
  assumes "agrees_unless P ex ex'" and ne: "\<not> escapes P (fst (Mult_Execute ex l r c st))"
  shows "Mult_Execute ex' l r c st = Mult_Execute ex l r c st"
proof -
  from ne have "\<not> escapes P (fst (operands ex l r c st))"
    by (auto simp: Mult_Execute_def split: prod.splits sum.splits)
  from operands_mono [OF assms(1) this] show ?thesis by (simp add: Mult_Execute_def)
qed

lemma Div_mono:
  assumes "agrees_unless P ex ex'" and ne: "\<not> escapes P (fst (Div_Execute ex l r c st))"
  shows "Div_Execute ex' l r c st = Div_Execute ex l r c st"
proof -
  from ne have "\<not> escapes P (fst (operands ex l r c st))"
    by (auto simp: Div_Execute_def split: prod.splits sum.splits)
  from operands_mono [OF assms(1) this] show ?thesis by (simp add: Div_Execute_def)
qed

lemma Add_dispatch_mono:
  assumes "agrees_unless P ex ex'" and ne: "\<not> escapes P (fst (Add_dispatch ex l r c st))"
  shows "Add_dispatch ex' l r c st = Add_dispatch ex l r c st"
proof -
  obtain x1 c1 st1 where e1: "ex l c st = (x1, c1, st1)" by (cases "ex l c st")
  show ?thesis
  proof (cases x1)
    case (Inl err)
    with ne e1 have "\<not> P err" by (auto simp: Add_dispatch_def)
    with agrees_Inl [OF assms(1)] e1 Inl show ?thesis by (simp add: Add_dispatch_def)
  next
    case h1: (Inr h1)
    note e1' = agrees_Inr [OF assms(1) e1 [unfolded h1]]
    show ?thesis
    proof (cases "TryAs_ClassInstance h1 = None")
      case True
      with e1 e1' h1 show ?thesis by (simp add: Add_dispatch_def)
    next
      case inst: False
      obtain x2 c2 st2 where e2: "ex l c1 st1 = (x2, c2, st2)" by (cases "ex l c1 st1")
      show ?thesis
      proof (cases x2)
        case (Inl err)
        with ne e1 h1 inst e2 have "\<not> P err" by (auto simp: Add_dispatch_def)
        with agrees_Inl [OF assms(1)] e1 e1' h1 inst e2 Inl show ?thesis
          by (simp add: Add_dispatch_def)
      next
        case h2: (Inr h2)
        note e2' = agrees_Inr [OF assms(1) e2 [unfolded h2]]
        show ?thesis
        proof (cases "TryAs_ClassInstance h2")
          case None
          with e1 e1' h1 inst e2 e2' h2 show ?thesis by (simp add: Add_dispatch_def)
        next
          case (Some p)
          obtain a2 cls2 where p: "p = (a2, cls2)" by (cases p)
          show ?thesis
          proof (cases "HasMethod cls2 ''__add__'' 1")
            case False
            with e1 e1' h1 inst e2 e2' h2 Some p show ?thesis by (simp add: Add_dispatch_def)
          next
            case True
            obtain x3 c3 st3 where e3: "operands ex l r c2 st2 = (x3, c3, st3)"
              by (cases "operands ex l r c2 st2")
            from ne e1 h1 inst e2 h2 Some p True e3 have x3: "\<not> escapes P x3"
              by (cases x3) (auto simp: Add_dispatch_def)
            with operands_mono [OF assms(1), of l r c2 st2] e3
            have e3': "operands ex' l r c2 st2 = (x3, c3, st3)" by simp
            show ?thesis
            proof (cases x3)
              case (Inl err)
              with e1 e1' h1 inst e2 e2' h2 Some p True e3 e3' show ?thesis
                by (simp add: Add_dispatch_def)
            next
              case (Inr hh)
              obtain h3 h4 where hh: "hh = (h3, h4)" by (cases hh)
              show ?thesis
              proof (cases "TryAs_ClassInstance h3")
                case None
                with e1 e1' h1 inst e2 e2' h2 Some p True e3 e3' Inr hh show ?thesis
                  by (simp add: Add_dispatch_def)
              next
                case s3: (Some q)
                obtain a3 cls3 where q: "q = (a3, cls3)" by (cases q)
                from ne e1 h1 inst e2 h2 Some p True e3 Inr hh s3 q
                have "\<not> escapes P (fst (Call ex a3 cls3 ''__add__'' [h4] st3))"
                  by (auto simp: Add_dispatch_def split: prod.splits)
                from Call_mono [OF assms(1) this]
                  e1 e1' h1 inst e2 e2' h2 Some p True e3 e3' Inr hh s3 q
                show ?thesis by (simp add: Add_dispatch_def)
              qed
            qed
          qed
        qed
      qed
    qed
  qed
qed

lemma Add_mono:
  assumes "agrees_unless P ex ex'" and ne: "\<not> escapes P (fst (Add_Execute ex l r c st))"
  shows "Add_Execute ex' l r c st = Add_Execute ex l r c st"
proof -
  obtain x c1 st1 where e: "operands ex l r c st = (x, c1, st1)" by (cases "operands ex l r c st")
  with ne have x: "\<not> escapes P x"
    by (cases x) (auto simp: Add_Execute_def)
  with operands_mono [OF assms(1), of l r c st] e
  have e': "operands ex' l r c st = (x, c1, st1)" by simp
  show ?thesis
  proof (cases x)
    case (Inl err)
    with e e' show ?thesis by (simp add: Add_Execute_def)
  next
    case (Inr hh)
    obtain a b where hh: "hh = (a, b)" by (cases hh)
    show ?thesis
    proof (cases "(TryAs_Number a \<noteq> None \<and> TryAs_Number b \<noteq> None) \<or> (TryAs_String a \<noteq> None \<and> TryAs_String b \<noteq> None)")
      case True
      with e e' Inr hh show ?thesis by (auto simp: Add_Execute_def)
    next
      case False
      with ne e Inr hh have "\<not> escapes P (fst (Add_dispatch ex l r c1 st1))"
        by (auto simp: Add_Execute_def)
      from Add_dispatch_mono [OF assms(1) this] False e e' Inr hh show ?thesis
        by (auto simp: Add_Execute_def)
    qed
  qed
qed

lemma Equal_mono:
  assumes "agrees_unless P ex ex'" and ne: "\<not> escapes P (fst (Equal ex l r st))"
  shows "Equal ex' l r st = Equal ex l r st"
proof (cases "TryAs_ClassInstance l")
  case None
  then show ?thesis by (simp add: Equal_def)
next
  case (Some p)
  obtain a cls where p: "p = (a, cls)" by (cases p)
  with Some have l: "l = HInstance a cls" by (cases l) auto
  show ?thesis
  proof (cases "HasMethod cls ''__eq__'' 1")
    case False
    with l show ?thesis by (simp add: Equal_def)
  next
    case True
    with ne l have "\<not> escapes P (fst (Call ex a cls ''__eq__'' [r] st))"
      by (auto simp: Equal_def split: prod.splits sum.splits option.splits)
    from Call_mono [OF assms(1) this] l True show ?thesis by (simp add: Equal_def)
  qed
qed

lemma Less_mono:
  assumes "agrees_unless P ex ex'" and ne: "\<not> escapes P (fst (Less ex l r st))"
  shows "Less ex' l r st = Less ex l r st"
proof (cases "TryAs_ClassInstance l")
  case None
  then show ?thesis by (simp add: Less_def)
next
  case (Some p)
  obtain a cls where p: "p = (a, cls)" by (cases p)
  with Some have l: "l = HInstance a cls" by (cases l) auto
  show ?thesis
  proof (cases "HasMethod cls ''__lt__'' 1")
    case False
    with l show ?thesis by (simp add: Less_def)
  next
    case True
    with ne l have "\<not> escapes P (fst (Call ex a cls ''__lt__'' [r] st))"
      by (auto simp: Less_def split: prod.splits sum.splits option.splits)
    from Call_mono [OF assms(1) this] l True show ?thesis by (simp add: Less_def)
  qed
qed

lemma NotEqual_mono:
  assumes "agrees_unless P ex ex'" and ne: "\<not> escapes P (fst (NotEqual ex l r st))"
  shows "NotEqual ex' l r st = NotEqual ex l r st"
proof -
  from ne have "\<not> escapes P (fst (Equal ex l r st))"
    by (auto simp: NotEqual_def split: prod.splits sum.splits)
  from Equal_mono [OF assms(1) this] show ?thesis by (simp add: NotEqual_def)
qed

lemma Greater_mono:
  assumes "agrees_unless P ex ex'" and ne: "\<not> escapes P (fst (Greater ex l r st))"
  shows "Greater ex' l r st = Greater ex l r st"
proof -
  obtain x st1 where e: "Less ex l r st = (x, st1)" by (cases "Less ex l r st")
  with ne have "\<not> escapes P x" by (cases x) (auto simp: Greater_def)
  with Less_mono [OF assms(1), of l r st] e have e': "Less ex' l r st = (x, st1)" by simp
  show ?thesis
  proof (cases x)
    case (Inl err)
    with e e' show ?thesis by (simp add: Greater_def)
  next
    case (Inr b)
    show ?thesis
    proof (cases b)
      case True
      with e e' Inr show ?thesis by (simp add: Greater_def)
    next
      case False
      with ne e Inr have "\<not> escapes P (fst (Equal ex l r st1))"
        by (auto simp: Greater_def split: prod.splits sum.splits)
      from Equal_mono [OF assms(1) this] e e' Inr False show ?thesis by (simp add: Greater_def)
    qed
  qed
qed

lemma LessOrEqual_mono:
  assumes "agrees_unless P ex ex'" and ne: "\<not> escapes P (fst (LessOrEqual ex l r st))"
  shows "LessOrEqual ex' l r st = LessOrEqual ex l r st"
proof -
  from ne have "\<not> escapes P (fst (Greater ex l r st))"
    by (auto simp: LessOrEqual_def split: prod.splits sum.splits)
  from Greater_mono [OF assms(1) this] show ?thesis by (simp add: LessOrEqual_def)
qed

lemma GreaterOrEqual_mono:
  assumes "agrees_unless P ex ex'" and ne: "\<not> escapes P (fst (GreaterOrEqual ex l r st))"
  shows "GreaterOrEqual ex' l r st = GreaterOrEqual ex l r st"
proof -
  from ne have "\<not> escapes P (fst (Less ex l r st))"
    by (auto simp: GreaterOrEqual_def split: prod.splits sum.splits)
  from Less_mono [OF assms(1) this] show ?thesis by (simp add: GreaterOrEqual_def)
qed

lemma apply_comparator_mono:
  assumes "agrees_unless P ex ex'" and ne: "\<not> escapes P (fst (apply_comparator cmp ex l r st))"
  shows "apply_comparator cmp ex' l r st = apply_comparator cmp ex l r st"
  using assms
  by (cases cmp)
     (simp_all add: Equal_mono NotEqual_mono Less_mono Greater_mono LessOrEqual_mono GreaterOrEqual_mono)

lemma Comparison_mono:
  assumes "agrees_unless P ex ex'" and ne: "\<not> escapes P (fst (Comparison_Execute ex cmp l r c st))"
  shows "Comparison_Execute ex' cmp l r c st = Comparison_Execute ex cmp l r c st"
proof -
  obtain x c1 st1 where e: "operands ex l r c st = (x, c1, st1)" by (cases "operands ex l r c st")
  with ne have x: "\<not> escapes P x"
    by (cases x) (auto simp: Comparison_Execute_def)
  with operands_mono [OF assms(1), of l r c st] e
  have e': "operands ex' l r c st = (x, c1, st1)" by simp
  show ?thesis
  proof (cases x)
    case (Inl err)
    with e e' show ?thesis by (simp add: Comparison_Execute_def)
  next
    case (Inr hh)
    obtain a b where hh: "hh = (a, b)" by (cases hh)
    with ne e Inr have "\<not> escapes P (fst (apply_comparator cmp ex a b st1))"
      by (auto simp: Comparison_Execute_def split: prod.splits sum.splits)
    from apply_comparator_mono [OF assms(1) this] e e' Inr hh show ?thesis
      by (simp add: Comparison_Execute_def)
  qed
qed

lemma MethodCall_mono:
  assumes "agrees_unless P ex ex'" and ne: "\<not> escapes P (fst (MethodCall_Execute ex ob m args c st))"
  shows "MethodCall_Execute ex' ob m args c st = MethodCall_Execute ex ob m args c st"
proof -
  obtain x c1 st1 where e: "eval_args ex args [] c st = (x, c1, st1)"
    by (cases "eval_args ex args [] c st")
  with ne have x: "\<not> escapes P x"
    by (cases x) (auto simp: MethodCall_Execute_def)
  with eval_args_mono [OF assms(1), of args "[]" c st] e
  have e': "eval_args ex' args [] c st = (x, c1, st1)" by simp
  show ?thesis
  proof (cases x)
    case (Inl err)
    with e e' show ?thesis by (simp add: MethodCall_Execute_def)
  next
    case (Inr actual)
    obtain y c2 st2 where o: "ex ob c1 st1 = (y, c2, st2)" by (cases "ex ob c1 st1")
    with ne e Inr have y: "\<not> escapes P y"
      by (cases y) (auto simp: MethodCall_Execute_def)
    note o' = agreesD [OF assms(1) o y]
    show ?thesis
    proof (cases y)
      case (Inl err)
      with e e' Inr o o' show ?thesis by (simp add: MethodCall_Execute_def)
    next
      case h: (Inr h)
      show ?thesis
      proof (cases "TryAs_ClassInstance h")
        case None
        with e e' Inr o o' h show ?thesis by (simp add: MethodCall_Execute_def)
      next
        case (Some p)
        obtain a cls where p: "p = (a, cls)" by (cases p)
        with ne e Inr o h Some have "\<not> escapes P (fst (Call ex a cls m actual st2))"
          by (auto simp: MethodCall_Execute_def split: prod.splits)
        from Call_mono [OF assms(1) this] e e' Inr o o' h Some p show ?thesis
          by (simp add: MethodCall_Execute_def)
      qed
    qed
  qed
qed

lemma NewInstance_mono:
  assumes "agrees_unless P ex ex'" and ne: "\<not> escapes P (fst (NewInstance_Execute ex a cls args c st))"
  shows "NewInstance_Execute ex' a cls args c st = NewInstance_Execute ex a cls args c st"
proof (cases "HasMethod cls ''__init__'' (length args)")
  case False
  then show ?thesis by (simp add: NewInstance_Execute_def)
next
  case True
  obtain x c1 st1 where e: "eval_args ex args [] c st = (x, c1, st1)"
    by (cases "eval_args ex args [] c st")
  with ne True have x: "\<not> escapes P x"
    by (cases x) (auto simp: NewInstance_Execute_def)
  with eval_args_mono [OF assms(1), of args "[]" c st] e
  have e': "eval_args ex' args [] c st = (x, c1, st1)" by simp
  show ?thesis
  proof (cases x)
    case (Inl err)
    with True e e' show ?thesis by (simp add: NewInstance_Execute_def)
  next
    case (Inr actual)
    with ne True e have "\<not> escapes P (fst (Call ex a cls ''__init__'' actual st1))"
      by (auto simp: NewInstance_Execute_def split: prod.splits sum.splits)
    from Call_mono [OF assms(1) this] True e e' Inr show ?thesis
      by (simp add: NewInstance_Execute_def)
  qed
qed

lemma Stringify_mono:
  assumes "agrees_unless P ex ex'" and "printer_agrees_unless P pr pr'"
    and ne: "\<not> escapes P (fst (Stringify_Execute ex pr s c st))"
  shows "Stringify_Execute ex' pr' s c st = Stringify_Execute ex pr s c st"
proof -
  obtain x c1 st1 where e: "ex s c st = (x, c1, st1)" by (cases "ex s c st")
  with ne have x: "\<not> escapes P x" by (cases x) (auto simp: Stringify_Execute_def)
  note e' = agreesD [OF assms(1) e x]
  show ?thesis
  proof (cases x)
    case (Inl err)
    with e e' show ?thesis by (simp add: Stringify_Execute_def)
  next
    case (Inr h)
    show ?thesis
    proof (cases "h = HNone")
      case True
      with e e' Inr show ?thesis by (simp add: Stringify_Execute_def)
    next
      case False
      with ne e Inr have "\<not> escapes P (fst (pr h st1))"
        by (auto simp: Stringify_Execute_def split: prod.splits sum.splits)
      with assms(2) have "pr' h st1 = pr h st1" by (simp add: printer_agrees_unless_def)
      with e e' Inr False show ?thesis by (simp add: Stringify_Execute_def)
    qed
  qed
qed

lemma Execute_node_mono:
  assumes "agrees_unless P ex ex'" and "printer_agrees_unless P pr pr'"
    and mb: "is_MethodBody s \<Longrightarrow> (\<forall>h. \<not> P (ReturnSignal h))"
    and ne: "\<not> escapes P (fst (Execute_node ex pr s c st))"
  shows "Execute_node ex' pr' s c st = Execute_node ex pr s c st"
  using assms
  by (cases s)
     (simp_all add: Assignment_mono FieldAssignment_mono Print_Execute_def Print_loop_mono
        MethodCall_mono NewInstance_mono Stringify_mono Add_mono Sub_mono Mult_mono Div_mono
        Or_mono And_mono Not_mono Comparison_mono Compound_Execute_def Compound_loop_mono
        MethodBody_mono Return_mono IfElse_mono)

lemma Execute_extends:
  "agrees_unless is_fuel (Execute n) (Execute (Suc n))
   \<and> printer_agrees_unless is_fuel (Print_holder n) (Print_holder (Suc n))"
proof (induction n)
  case 0
  show ?case by (simp add: agrees_unless_def printer_agrees_unless_def)
next
  case (Suc n)
  from Suc have E: "agrees_unless is_fuel (Execute n) (Execute (Suc n))"
    by (rule conjunct1)
  from Suc have Q: "printer_agrees_unless is_fuel (Print_holder n) (Print_holder (Suc n))"
    by (rule conjunct2)
  have "agrees_unless is_fuel (Execute (Suc n)) (Execute (Suc (Suc n)))"
    unfolding agrees_unless_def
  proof (intro allI impI)
    fix s c st
    assume "\<not> escapes is_fuel (fst (Execute (Suc n) s c st))"
    then have "\<not> escapes is_fuel (fst (Execute_node (Execute n) (Print_holder n) s c st))" by simp
    from Execute_node_mono [OF E Q _ this]
    show "Execute (Suc (Suc n)) s c st = Execute (Suc n) s c st" by simp
  qed
  moreover have "printer_agrees_unless is_fuel (Print_holder (Suc n)) (Print_holder (Suc (Suc n)))"
    unfolding printer_agrees_unless_def
  proof (intro allI impI)
    fix h st
    assume "\<not> escapes is_fuel (fst (Print_holder (Suc n) h st))"
    then have "\<not> escapes is_fuel (fst (Print_object (Execute n) (Print_holder n) h st))" by simp
    from Print_object_mono [OF E Q this]
    show "Print_holder (Suc (Suc n)) h st = Print_holder (Suc n) h st" by simp
  qed
  ultimately show ?case by (rule conjI)
qed

lemma Execute_more_fuel:
  "fst (Execute n s c st) \<noteq> Inl OutOfFuel \<Longrightarrow> Execute (n + k) s c st = Execute n s c st"
proof (induction k)
  case 0
  show ?case by simp
next
  case (Suc k)
  from Suc have "fst (Execute (n + k) s c st) \<noteq> Inl OutOfFuel" by simp
  then have "\<not> escapes is_fuel (fst (Execute (n + k) s c st))"
    by (cases "fst (Execute (n + k) s c st)") (auto elim: is_fuel.elims)
  with Execute_extends [of "n + k"] have "Execute (Suc (n + k)) s c st = Execute (n + k) s c st"
    by (simp add: agrees_unless_def)
  with Suc show ?case by simp
qed

section \<open>The holder of a return signal\<close>

text \<open>
  No node other than Return and MethodBody looks at the holder carried by a return
  signal of a child: applying f to the holders of the children's signals applies f to
  the holder of the node's signal, if it raises one, and changes nothing else.
\<close>

lemma relabel_outcome_simps [simp]:
  "relabel_outcome f (Inl e, x) = (Inl (relabel_exn f e), x)"
  "relabel_outcome f (Inr v, x) = (Inr v, x)"
  by (simp_all add: relabel_outcome_def)

lemma relabel_Inr: "ex s c st = (Inr v, x) \<Longrightarrow> relabel f ex s c st = (Inr v, x)"
  by (simp add: relabel_def)

lemma relabel_Inl: "ex s c st = (Inl e, x) \<Longrightarrow> relabel f ex s c st = (Inl (relabel_exn f e), x)"
  by (simp add: relabel_def)

lemma relabel_printer_Inr: "pr h st = (Inr v, x) \<Longrightarrow> relabel_printer f pr h st = (Inr v, x)"
  by (simp add: relabel_printer_def)

lemma relabel_printer_Inl: "pr h st = (Inl e, x) \<Longrightarrow> relabel_printer f pr h st = (Inl (relabel_exn f e), x)"
  by (simp add: relabel_printer_def)

lemmas rl = relabel_Inr relabel_Inl relabel_printer_Inr relabel_printer_Inl

lemma operands_relabel:
  "operands (relabel f ex) l r c st = relabel_outcome f (operands ex l r c st)"
  by (auto simp: operands_def rl split: prod.splits sum.splits)

lemma Call_relabel:
  "Call (relabel f ex) a cls m args st = relabel_outcome f (Call ex a cls m args st)"
  by (auto simp: Call_def Let_def relabel_def relabel_outcome_def split: prod.splits sum.splits option.splits)

lemma eval_args_relabel:
  "eval_args (relabel f ex) args acc c st = relabel_outcome f (eval_args ex args acc c st)"
proof (induction args arbitrary: acc c st)
  case Nil
  show ?case by simp
next
  case (Cons a args)
  obtain x c' st' where e: "ex a c st = (x, c', st')" by (cases "ex a c st")
  show ?case using e Cons.IH by (cases x) (simp_all add: rl)
qed

lemma Compound_loop_relabel:
  "Compound_loop (relabel f ex) args c st = relabel_outcome f (Compound_loop ex args c st)"
proof (induction args arbitrary: c st)
  case Nil
  show ?case by simp
next
  case (Cons a args)
  obtain x c' st' where e: "ex a c st = (x, c', st')" by (cases "ex a c st")
  show ?case using e Cons.IH by (cases x) (simp_all add: rl)
qed

lemma Print_loop_relabel:
  "Print_loop (relabel f ex) (relabel_printer f pr) args ff oh c st
     = relabel_outcome f (Print_loop ex pr args ff oh c st)"
proof (induction args arbitrary: ff oh c st)
  case Nil
  show ?case by simp
next
  case (Cons a args)
  let ?st0 = "if ff then st else st\<lparr>out := out st @ '' ''\<rparr>"
  obtain x c' st' where e: "ex a c ?st0 = (x, c', st')" by (cases "ex a c ?st0")
  show ?case
  proof (cases x)
    case (Inl err)
    with e show ?thesis by (simp add: rl)
  next
    case (Inr h)
    show ?thesis
    proof (cases "h = HNone")
      case True
      with e Inr Cons.IH show ?thesis by (simp add: rl)
    next
      case False
      obtain y tx st'' where p: "pr h st' = (y, tx, st'')" by (cases "pr h st'")
      with e Inr False Cons.IH show ?thesis by (cases y) (simp_all add: rl)
    qed
  qed
qed

lemma Print_object_relabel:
  "Print_object (relabel f ex) (relabel_printer f pr) h st = relabel_outcome f (Print_object ex pr h st)"
proof (cases h)
  case (HInstance a cls)
  obtain r st' where call: "Call ex a cls ''__str__'' [] st = (r, st')"
    by (cases "Call ex a cls ''__str__'' [] st")
  with HInstance show ?thesis
    by (cases r) (simp_all add: Print_object_def Call_relabel relabel_printer_def)
qed (simp_all add: Print_object_def)

lemma Assignment_relabel:
  "Assignment_Execute (relabel f ex) v rv c st = relabel_outcome f (Assignment_Execute ex v rv c st)"
  by (auto simp: Assignment_Execute_def rl split: prod.splits sum.splits)

lemma relabel_exn_id: "\<not> is_return e \<Longrightarrow> relabel_exn f e = e"
  by (cases e) simp_all

lemma VariableValue_loop_no_return:
  "VariableValue_loop hp lc it ids = Inl e \<Longrightarrow> \<not> is_return e"
  by (induction ids arbitrary: lc it) (auto split: option.splits)

lemma FieldAssignment_relabel:
  "FieldAssignment_Execute (relabel f ex) ob fl rv c st
     = relabel_outcome f (FieldAssignment_Execute ex ob fl rv c st)"
proof -
  obtain x c1 st1 where e: "ex rv c st = (x, c1, st1)" by (cases "ex rv c st")
  obtain y where v: "VariableValue_Execute ob c1 st1 = (y, c1, st1)"
    by (simp add: VariableValue_Execute_def)
  have nr: "relabel_exn f err = err" if "y = Inl err" for err
    using that v VariableValue_loop_no_return [of "heap st1" c1 None ob err]
    by (simp add: VariableValue_Execute_def relabel_exn_id)
  show ?thesis
    using e v nr
    by (cases x; cases y) (auto simp: FieldAssignment_Execute_def rl split: option.splits)
qed

lemma Not_relabel:
  "Not_Execute (relabel f ex) s c st = relabel_outcome f (Not_Execute ex s c st)"
  by (auto simp: Not_Execute_def rl split: prod.splits sum.splits)

lemma Or_relabel:
  "Or_Execute (relabel f ex) l r c st = relabel_outcome f (Or_Execute ex l r c st)"
  by (auto simp: Or_Execute_def rl split: prod.splits sum.splits)

lemma And_relabel:
  "And_Execute (relabel f ex) l r c st = relabel_outcome f (And_Execute ex l r c st)"
  by (auto simp: And_Execute_def rl split: prod.splits sum.splits)

lemma IfElse_relabel:
  "IfElse_Execute (relabel f ex) cnd a b c st = relabel_outcome f (IfElse_Execute ex cnd a b c st)"
proof -
  obtain x c1 st1 where e: "ex cnd c st = (x, c1, st1)" by (cases "ex cnd c st")
  show ?thesis using e
    by (cases x) (auto simp: IfElse_Execute_def rl relabel_def split: option.splits)
qed


lemma Return_relabel_Inl:
  "ex s c st = (Inl e, x) \<Longrightarrow> Return_Execute (relabel f ex) s c st = relabel_outcome f (Return_Execute ex s c st)"
  by (cases x) (simp add: Return_Execute_def rl)

lemma Stringify_relabel:
  "Stringify_Execute (relabel f ex) (relabel_printer f pr) s c st
     = relabel_outcome f (Stringify_Execute ex pr s c st)"
proof -
  obtain x c1 st1 where e: "ex s c st = (x, c1, st1)" by (cases "ex s c st")
  show ?thesis
  proof (cases x)
    case (Inl err)
    with e show ?thesis by (simp add: Stringify_Execute_def rl)
  next
    case (Inr h)
    obtain y tx st2 where p: "pr h st1 = (y, tx, st2)" by (cases "pr h st1")
    with e Inr show ?thesis by (cases y) (simp_all add: Stringify_Execute_def rl)
  qed
qed

lemma Number_of_no_return: "Number_of v = Inl e \<Longrightarrow> relabel_exn f e = e"
  by (auto simp: Number_of_def split: if_splits)

lemma int_div_no_return: "int_div a b = Inl e \<Longrightarrow> relabel_exn f e = e"
  by (auto simp: int_div_def Number_of_def split: if_splits)

lemma relabel_outcome_Number_of [simp]:
  "relabel_outcome f (Number_of v, x) = (Number_of v, x)"
  by (cases "Number_of v") (simp_all add: Number_of_no_return)

lemma relabel_outcome_int_div [simp]:
  "relabel_outcome f (int_div a b, x) = (int_div a b, x)"
  by (cases "int_div a b") (simp_all add: int_div_no_return)

lemma Sub_relabel:
  "Sub_Execute (relabel f ex) l r c st = relabel_outcome f (Sub_Execute ex l r c st)"
proof -
  obtain x c1 st1 where e: "operands ex l r c st = (x, c1, st1)" by (cases "operands ex l r c st")
  then show ?thesis
    by (cases x) (auto simp: Sub_Execute_def operands_relabel)
qed

lemma Mult_relabel:
  "Mult_Execute (relabel f ex) l r c st = relabel_outcome f (Mult_Execute ex l r c st)"
proof -
  obtain x c1 st1 where e: "operands ex l r c st = (x, c1, st1)" by (cases "operands ex l r c st")
  then show ?thesis
    by (cases x) (auto simp: Mult_Execute_def operands_relabel)
qed

lemma Div_relabel:
  "Div_Execute (relabel f ex) l r c st = relabel_outcome f (Div_Execute ex l r c st)"
proof -
  obtain x c1 st1 where e: "operands ex l r c st = (x, c1, st1)" by (cases "operands ex l r c st")
  then show ?thesis
    by (cases x) (auto simp: Div_Execute_def operands_relabel)
qed

lemma Add_dispatch_relabel:
  "Add_dispatch (relabel f ex) l r c st = relabel_outcome f (Add_dispatch ex l r c st)"
proof -
  obtain x1 c1 st1 where e1: "ex l c st = (x1, c1, st1)" by (cases "ex l c st")
  show ?thesis
  proof (cases x1)
    case (Inl err)
    with e1 show ?thesis by (simp add: Add_dispatch_def rl)
  next
    case h1: (Inr h1)
    show ?thesis
    proof (cases "TryAs_ClassInstance h1 = None")
      case True
      with e1 h1 show ?thesis by (simp add: Add_dispatch_def rl)
    next
      case inst: False
      obtain x2 c2 st2 where e2: "ex l c1 st1 = (x2, c2, st2)" by (cases "ex l c1 st1")
      show ?thesis
      proof (cases x2)
        case (Inl err)
        with e1 h1 inst e2 show ?thesis by (simp add: Add_dispatch_def rl)
      next
        case h2: (Inr h2)
        show ?thesis
        proof (cases "TryAs_ClassInstance h2")
          case None
          with e1 h1 inst e2 h2 show ?thesis by (simp add: Add_dispatch_def rl)
        next
          case (Some p)
          obtain a2 cls2 where p: "p = (a2, cls2)" by (cases p)
          show ?thesis
          proof (cases "HasMethod cls2 ''__add__'' 1")
            case False
            with e1 h1 inst e2 h2 Some p show ?thesis by (simp add: Add_dispatch_def rl)
          next
            case True
            obtain x3 c3 st3 where e3: "operands ex l r c2 st2 = (x3, c3, st3)"
              by (cases "operands ex l r c2 st2")
            show ?thesis
            proof (cases x3)
              case (Inl err)
              with e1 h1 inst e2 h2 Some p True e3 show ?thesis
                by (simp add: Add_dispatch_def rl operands_relabel)
            next
              case (Inr hh)
              obtain h3 h4 where hh: "hh = (h3, h4)" by (cases hh)
              show ?thesis
              proof (cases "TryAs_ClassInstance h3")
                case None
                with e1 h1 inst e2 h2 Some p True e3 Inr hh show ?thesis
                  by (simp add: Add_dispatch_def rl operands_relabel)
              next
                case s3: (Some q)
                obtain a3 cls3 where q: "q = (a3, cls3)" by (cases q)
                obtain y st4 where cl: "Call ex a3 cls3 ''__add__'' [h4] st3 = (y, st4)"
                  by (cases "Call ex a3 cls3 ''__add__'' [h4] st3")
                with e1 h1 inst e2 h2 Some p True e3 Inr hh s3 q show ?thesis
                  by (cases y) (simp_all add: Add_dispatch_def rl operands_relabel Call_relabel)
              qed
            qed
          qed
        qed
      qed
    qed
  qed
qed

lemma Add_relabel:
  "Add_Execute (relabel f ex) l r c st = relabel_outcome f (Add_Execute ex l r c st)"
proof -
  obtain x c1 st1 where e: "operands ex l r c st = (x, c1, st1)" by (cases "operands ex l r c st")
  then show ?thesis
    by (cases x) (auto simp: Add_Execute_def operands_relabel Add_dispatch_relabel)
qed

lemma Equal_relabel:
  "Equal (relabel f ex) l r st = relabel_outcome f (Equal ex l r st)"
proof (cases "TryAs_ClassInstance l")
  case None
  then show ?thesis by (simp add: Equal_def)
next
  case (Some p)
  obtain a cls where p: "p = (a, cls)" by (cases p)
  with Some have l: "l = HInstance a cls" by (cases l) auto
  obtain y st1 where cl: "Call ex a cls ''__eq__'' [r] st = (y, st1)"
    by (cases "Call ex a cls ''__eq__'' [r] st")
  with l show ?thesis
    by (cases y) (auto simp: Equal_def Call_relabel split: option.splits)
qed

lemma Less_relabel:
  "Less (relabel f ex) l r st = relabel_outcome f (Less ex l r st)"
proof (cases "TryAs_ClassInstance l")
  case None
  then show ?thesis by (simp add: Less_def)
next
  case (Some p)
  obtain a cls where p: "p = (a, cls)" by (cases p)
  with Some have l: "l = HInstance a cls" by (cases l) auto
  obtain y st1 where cl: "Call ex a cls ''__lt__'' [r] st = (y, st1)"
    by (cases "Call ex a cls ''__lt__'' [r] st")
  with l show ?thesis
    by (cases y) (auto simp: Less_def Call_relabel split: option.splits)
qed

lemma NotEqual_relabel:
  "NotEqual (relabel f ex) l r st = relabel_outcome f (NotEqual ex l r st)"
proof -
  obtain y st1 where e: "Equal ex l r st = (y, st1)" by (cases "Equal ex l r st")
  then show ?thesis by (cases y) (simp_all add: NotEqual_def Equal_relabel)
qed

lemma Greater_relabel:
  "Greater (relabel f ex) l r st = relabel_outcome f (Greater ex l r st)"
proof -
  obtain y st1 where e: "Less ex l r st = (y, st1)" by (cases "Less ex l r st")
  show ?thesis
  proof (cases y)
    case (Inl err)
    with e show ?thesis by (simp add: Greater_def Less_relabel)
  next
    case (Inr b)
    obtain z st2 where q: "Equal ex l r st1 = (z, st2)" by (cases "Equal ex l r st1")
    with e Inr show ?thesis by (cases z) (simp_all add: Greater_def Less_relabel Equal_relabel)
  qed
qed

lemma LessOrEqual_relabel:
  "LessOrEqual (relabel f ex) l r st = relabel_outcome f (LessOrEqual ex l r st)"
proof -
  obtain y st1 where e: "Greater ex l r st = (y, st1)" by (cases "Greater ex l r st")
  then show ?thesis by (cases y) (simp_all add: LessOrEqual_def Greater_relabel)
qed

lemma GreaterOrEqual_relabel:
  "GreaterOrEqual (relabel f ex) l r st = relabel_outcome f (GreaterOrEqual ex l r st)"
proof -
  obtain y st1 where e: "Less ex l r st = (y, st1)" by (cases "Less ex l r st")
  then show ?thesis by (cases y) (simp_all add: GreaterOrEqual_def Less_relabel)
qed

lemma apply_comparator_relabel:
  "apply_comparator cmp (relabel f ex) l r st = relabel_outcome f (apply_comparator cmp ex l r st)"
  by (cases cmp)
     (simp_all add: Equal_relabel NotEqual_relabel Less_relabel Greater_relabel
        LessOrEqual_relabel GreaterOrEqual_relabel)

lemma Comparison_relabel:
  "Comparison_Execute (relabel f ex) cmp l r c st = relabel_outcome f (Comparison_Execute ex cmp l r c st)"
proof -
  obtain x c1 st1 where e: "operands ex l r c st = (x, c1, st1)" by (cases "operands ex l r c st")
  show ?thesis
  proof (cases x)
    case (Inl err)
    with e show ?thesis by (simp add: Comparison_Execute_def operands_relabel)
  next
    case (Inr hh)
    obtain a b where hh: "hh = (a, b)" by (cases hh)
    obtain y st2 where q: "apply_comparator cmp ex a b st1 = (y, st2)"
      by (cases "apply_comparator cmp ex a b st1")
    with e Inr hh show ?thesis
      by (cases y) (simp_all add: Comparison_Execute_def operands_relabel apply_comparator_relabel)
  qed
qed

lemma MethodCall_relabel:
  "MethodCall_Execute (relabel f ex) ob m args c st = relabel_outcome f (MethodCall_Execute ex ob m args c st)"
proof -
  obtain x c1 st1 where e: "eval_args ex args [] c st = (x, c1, st1)"
    by (cases "eval_args ex args [] c st")
  show ?thesis
  proof (cases x)
    case (Inl err)
    with e show ?thesis by (simp add: MethodCall_Execute_def eval_args_relabel)
  next
    case (Inr actual)
    obtain y c2 st2 where o: "ex ob c1 st1 = (y, c2, st2)" by (cases "ex ob c1 st1")
    show ?thesis
    proof (cases y)
      case (Inl err)
      with e Inr o show ?thesis by (simp add: MethodCall_Execute_def eval_args_relabel rl)
    next
      case h: (Inr h)
      show ?thesis
      proof (cases "TryAs_ClassInstance h")
        case None
        with e Inr o h show ?thesis by (simp add: MethodCall_Execute_def eval_args_relabel rl)
      next
        case (Some p)
        obtain a cls where p: "p = (a, cls)" by (cases p)
        obtain z st3 where cl: "Call ex a cls m actual st2 = (z, st3)"
          by (cases "Call ex a cls m actual st2")
        with e Inr o h Some p show ?thesis
          by (cases z) (simp_all add: MethodCall_Execute_def eval_args_relabel rl Call_relabel)
      qed
    qed
  qed
qed

lemma NewInstance_relabel:
  "NewInstance_Execute (relabel f ex) a cls args c st = relabel_outcome f (NewInstance_Execute ex a cls args c st)"
proof (cases "HasMethod cls ''__init__'' (length args)")
  case False
  then show ?thesis by (simp add: NewInstance_Execute_def)
next
  case True
  obtain x c1 st1 where e: "eval_args ex args [] c st = (x, c1, st1)"
    by (cases "eval_args ex args [] c st")
  show ?thesis
  proof (cases x)
    case (Inl err)
    with True e show ?thesis by (simp add: NewInstance_Execute_def eval_args_relabel)
  next
    case (Inr actual)
    obtain z st2 where cl: "Call ex a cls ''__init__'' actual st1 = (z, st2)"
      by (cases "Call ex a cls ''__init__'' actual st1")
    with True e Inr show ?thesis
      by (cases z) (simp_all add: NewInstance_Execute_def eval_args_relabel Call_relabel)
  qed
qed

lemma ClassDefinition_relabel:
  "relabel_outcome f (ClassDefinition_Execute cls c st) = ClassDefinition_Execute cls c st"
  by (auto simp: ClassDefinition_Execute_def split: option.splits)

lemma VariableValue_relabel:
  "relabel_outcome f (VariableValue_Execute ids c st) = VariableValue_Execute ids c st"
  using VariableValue_loop_no_return [of "heap st" c None ids]
  by (cases "VariableValue_loop (heap st) c None ids")
     (simp_all add: VariableValue_Execute_def relabel_exn_id)

lemma Execute_node_relabel:
  assumes "\<not> is_MethodBody s" and "\<not> is_Return s"
  shows "Execute_node (relabel f ex) (relabel_printer f pr) s c st
           = relabel_outcome f (Execute_node ex pr s c st)"
  using assms
  by (cases s)
     (simp_all add: Assignment_relabel FieldAssignment_relabel Print_Execute_def Print_loop_relabel
        MethodCall_relabel NewInstance_relabel Stringify_relabel Add_relabel Sub_relabel
        Mult_relabel Div_relabel Or_relabel And_relabel Not_relabel Comparison_relabel
        Compound_Execute_def Compound_loop_relabel IfElse_relabel ClassDefinition_relabel
        VariableValue_relabel)

section \<open>Logical operators\<close>

lemma Or_skips_rhs:
  "fst (snd (Execute (Suc (Suc (Suc 0))) (Or (BoolConst True) assign_x) empty_closure initial_state)) ''x'' = None"
  by (simp add: empty_closure_def Or_Execute_def assign_x_def)

lemma Or_both_runs_rhs:
  "fst (snd (Or_both_operands (Execute (Suc (Suc 0))) (BoolConst True) assign_x empty_closure initial_state)) ''x''
     = Some (HNumber 1)"
  by (simp add: empty_closure_def Or_both_operands_def operands_def Assignment_Execute_def assign_x_def)

text \<open>
  C1, as stated, fails: on True or (x = 1) the node Or does not behave like the
  evaluation of both operands. The assignment is not executed, and x stays unbound.
\<close>

theorem Or_both_operands_counterexample:
  "Execute (Suc (Suc (Suc 0))) (Or (BoolConst True) assign_x) empty_closure initial_state
     \<noteq> Or_both_operands (Execute (Suc (Suc 0))) (BoolConst True) assign_x empty_closure initial_state"
proof
  assume "Execute (Suc (Suc (Suc 0))) (Or (BoolConst True) assign_x) empty_closure initial_state
     = Or_both_operands (Execute (Suc (Suc 0))) (BoolConst True) assign_x empty_closure initial_state"
  then have "fst (snd (Execute (Suc (Suc (Suc 0))) (Or (BoolConst True) assign_x) empty_closure initial_state)) ''x''
     = fst (snd (Or_both_operands (Execute (Suc (Suc 0))) (BoolConst True) assign_x empty_closure initial_state)) ''x''"
    by simp
  then show False
    unfolding Or_skips_rhs Or_both_runs_rhs by simp
qed

text \<open>
  C1 (amended): Or::Execute and And::Execute evaluate the left operand first and coerce
  it with IsTrue. Or evaluates the right operand only when the left one is false, And
  only when the left one is true; a right operand that is not needed is not executed,
  so the closure and the state are those the left operand left. The result is a Bool
  holder wrapping the disjunction resp. conjunction of the operands' truth values.
\<close>

theorem And_Or_short_circuit:
  "(Execute n lhs c st = (Inr l, c1, st1) \<and> IsTrue l \<longrightarrow>
      Execute (Suc n) (Or lhs rhs) c st = (Inr (HBool True), c1, st1))
 \<and> (Execute n lhs c st = (Inr l, c1, st1) \<and> \<not> IsTrue l \<and> Execute n rhs c1 st1 = (Inr r, c2, st2) \<longrightarrow>
      Execute (Suc n) (Or lhs rhs) c st = (Inr (HBool (IsTrue l \<or> IsTrue r)), c2, st2))
 \<and> (Execute n lhs c st = (Inr l, c1, st1) \<and> \<not> IsTrue l \<longrightarrow>
      Execute (Suc n) (And lhs rhs) c st = (Inr (HBool False), c1, st1))
 \<and> (Execute n lhs c st = (Inr l, c1, st1) \<and> IsTrue l \<and> Execute n rhs c1 st1 = (Inr r, c2, st2) \<longrightarrow>
      Execute (Suc n) (And lhs rhs) c st = (Inr (HBool (IsTrue l \<and> IsTrue r)), c2, st2))"
  by (simp add: Or_Execute_def And_Execute_def)

theorem And_Or_short_circuit_witness:
  "Execute (Suc 0) (BoolConst True) empty_closure initial_state = (Inr (HBool True), empty_closure, initial_state)
   \<and> IsTrue (HBool True)
   \<and> Execute (Suc (Suc 0)) (Or (BoolConst True) assign_x) empty_closure initial_state
       = (Inr (HBool True), empty_closure, initial_state)
   \<and> Execute (Suc 0) (BoolConst False) empty_closure initial_state = (Inr (HBool False), empty_closure, initial_state)
   \<and> \<not> IsTrue (HBool False)
   \<and> Execute (Suc (Suc 0)) (And (BoolConst False) assign_x) empty_closure initial_state
       = (Inr (HBool False), empty_closure, initial_state)"
proof -
  have t: "Execute (Suc 0) (BoolConst True) empty_closure initial_state
             = (Inr (HBool True), empty_closure, initial_state) \<and> IsTrue (HBool True)"
    by simp
  have f: "Execute (Suc 0) (BoolConst False) empty_closure initial_state
             = (Inr (HBool False), empty_closure, initial_state) \<and> \<not> IsTrue (HBool False)"
    by simp
  from And_Or_short_circuit [where n = "Suc 0" and lhs = "BoolConst True" and rhs = assign_x
      and c = empty_closure and st = initial_state and l = "HBool True"
      and ?c1.0 = empty_closure and ?st1.0 = initial_state] t
  have a: "Execute (Suc (Suc 0)) (Or (BoolConst True) assign_x) empty_closure initial_state
       = (Inr (HBool True), empty_closure, initial_state)"
    by blast
  from And_Or_short_circuit [where n = "Suc 0" and lhs = "BoolConst False" and rhs = assign_x
      and c = empty_closure and st = initial_state and l = "HBool False"
      and ?c1.0 = empty_closure and ?st1.0 = initial_state] f
  have b: "Execute (Suc (Suc 0)) (And (BoolConst False) assign_x) empty_closure initial_state
       = (Inr (HBool False), empty_closure, initial_state)"
    by blast
  from t f a b show ?thesis by blast
qed

section \<open>Division\<close>

text \<open>
  C2: Div::Execute on 1 / 0 carries out the integer division by zero (undefined
  behaviour); it does not raise the runtime error that its declaration announces for a
  zero right operand. With a non-zero right operand the quotient truncates towards
  zero: -7 / 2 is -3.
\<close>

theorem Div_by_zero_undefined:
  "Execute (Suc (Suc 0)) (Div (NumericConst 1) (NumericConst 0)) empty_closure initial_state
     = (Inl Undefined, empty_closure, initial_state)
   \<and> Execute (Suc (Suc 0)) (Div (NumericConst (- 7)) (NumericConst 2)) empty_closure initial_state
     = (Inr (HNumber (- 3)), empty_closure, initial_state)"
  by (simp add: Div_Execute_def operands_def int_div_def Number_of_def int_range_def
      signed_divide_int_def)

section \<open>Return and MethodBody\<close>

lemma Compound_loop_append:
  "Compound_loop ex pre c st = (Inr h0, c0, st0) \<Longrightarrow>
   Compound_loop ex (pre @ rest) c st = Compound_loop ex rest c0 st0"
proof (induction pre arbitrary: c st)
  case Nil
  then show ?case by simp
next
  case (Cons s pre)
  then show ?case
    by (auto split: prod.splits sum.splits)
qed

text \<open>
  C3: Return::Execute throws the holder its statement evaluated to, and the signal
  travels unchanged to the nearest enclosing MethodBody. A Compound whose earlier
  statements completed passes the signal of a statement on without executing the
  statements after it, and IfElse passes on the signal of the branch it runs. More
  generally, for every node t other than MethodBody: an outcome of t that is not a
  return signal is the same whatever the children are replaced by on the calls that
  raise a return signal (so no such call is swallowed: t completes or fails only when
  none of the children it ran raised one); and for t other than Return as well,
  applying f to the holders of the children's signals applies f to the holder of the
  signal of t and changes nothing else (so the holder that leaves t is the one a child
  raised). MethodBody::Execute returns the holder of a signal raised in its body, the
  empty holder when the body completes, and lets a runtime error of the body through
  unchanged, with the closure and the state as the body left them.
\<close>

theorem Return_MethodBody:
  "(Execute n s c st = (Inr h, c', st') \<longrightarrow>
      Execute (Suc n) (Return s) c st = (Inl (ReturnSignal h), c', st'))
 \<and> (Execute (Suc n) (Compound pre) c st = (Inr h0, c0, st0)
      \<and> Execute n s c0 st0 = (Inl (ReturnSignal h), c', st') \<longrightarrow>
      Execute (Suc n) (Compound (pre @ s # post)) c st = (Inl (ReturnSignal h), c', st'))
 \<and> (Execute n cnd c st = (Inr v, c1, st1) \<and> IsTrue v
      \<and> Execute n s c1 st1 = (Inl (ReturnSignal h), c', st') \<longrightarrow>
      Execute (Suc n) (IfElse cnd s els) c st = (Inl (ReturnSignal h), c', st'))
 \<and> (Execute n cnd c st = (Inr v, c1, st1) \<and> \<not> IsTrue v
      \<and> Execute n s c1 st1 = (Inl (ReturnSignal h), c', st') \<longrightarrow>
      Execute (Suc n) (IfElse cnd thn (Some s)) c st = (Inl (ReturnSignal h), c', st'))
 \<and> (\<not> is_MethodBody t \<and> \<not> escapes is_return (fst (Execute (Suc n) t c st))
      \<and> agrees_unless is_return (Execute n) ex' \<and> printer_agrees_unless is_return (Print_holder n) pr' \<longrightarrow>
      Execute_node ex' pr' t c st = Execute (Suc n) t c st)
 \<and> (\<not> is_MethodBody t \<and> \<not> is_Return t \<longrightarrow>
      Execute_node (relabel f (Execute n)) (relabel_printer f (Print_holder n)) t c st
        = relabel_outcome f (Execute (Suc n) t c st))
 \<and> (Execute n b c st = (Inl (ReturnSignal h), c', st') \<longrightarrow>
      Execute (Suc n) (MethodBody b) c st = (Inr h, c', st'))
 \<and> (Execute n b c st = (Inr h, c', st') \<longrightarrow>
      Execute (Suc n) (MethodBody b) c st = (Inr HNone, c', st'))
 \<and> (Execute n b c st = (Inl (RuntimeError msg), c', st') \<longrightarrow>
      Execute (Suc n) (MethodBody b) c st = (Inl (RuntimeError msg), c', st'))"
proof (intro conjI impI)
  assume "\<not> is_MethodBody t \<and> \<not> escapes is_return (fst (Execute (Suc n) t c st))
      \<and> agrees_unless is_return (Execute n) ex' \<and> printer_agrees_unless is_return (Print_holder n) pr'"
  then have a: "agrees_unless is_return (Execute n) ex'"
    and p: "printer_agrees_unless is_return (Print_holder n) pr'"
    and m: "is_MethodBody t \<Longrightarrow> (\<forall>h. \<not> is_return (ReturnSignal h))"
    and e: "\<not> escapes is_return (fst (Execute_node (Execute n) (Print_holder n) t c st))"
    by simp_all
  from Execute_node_mono [OF a p m e]
  show "Execute_node ex' pr' t c st = Execute (Suc n) t c st" by simp
next
  assume "\<not> is_MethodBody t \<and> \<not> is_Return t"
  then show "Execute_node (relabel f (Execute n)) (relabel_printer f (Print_holder n)) t c st
        = relabel_outcome f (Execute (Suc n) t c st)"
    by (simp add: Execute_node_relabel)
qed (simp_all add: Return_Execute_def MethodBody_Execute_def Compound_Execute_def
       Compound_loop_append IfElse_Execute_def)

theorem Return_MethodBody_witness:
  "Execute (Suc 0) (NumericConst 3) empty_closure initial_state = (Inr (HNumber 3), empty_closure, initial_state)
   \<and> Execute (Suc (Suc 0)) (Return (NumericConst 3)) empty_closure initial_state
       = (Inl (ReturnSignal (HNumber 3)), empty_closure, initial_state)
   \<and> Execute (Suc (Suc (Suc 0))) return_in_if empty_closure initial_state
       = (Inl (ReturnSignal (HNumber 3)), empty_closure, initial_state)
   \<and> Execute (Suc (Suc (Suc 0))) (IfElse (BoolConst False) NoneConst (Some (Return (NumericConst 3))))
         empty_closure initial_state
       = (Inl (ReturnSignal (HNumber 3)), empty_closure, initial_state)
   \<and> Execute (Suc (Suc (Suc (Suc 0)))) first_return_wins empty_closure initial_state
       = (Inl (ReturnSignal (HNumber 3)), empty_closure, initial_state)
   \<and> Execute (Suc (Suc (Suc (Suc (Suc 0))))) (MethodBody first_return_wins) empty_closure initial_state
       = (Inr (HNumber 3), empty_closure, initial_state)
   \<and> \<not> escapes is_return (fst (Execute (Suc (Suc (Suc 0))) skipped_return empty_closure initial_state))
   \<and> agrees_unless is_return (Execute (Suc (Suc 0))) (without_return (Execute (Suc (Suc 0))))
   \<and> printer_agrees_unless is_return (Print_holder (Suc (Suc 0)))
         (printer_without_return (Print_holder (Suc (Suc 0))))
   \<and> Execute_node (without_return (Execute (Suc (Suc 0))))
         (printer_without_return (Print_holder (Suc (Suc 0)))) skipped_return empty_closure initial_state
       = Execute (Suc (Suc (Suc 0))) skipped_return empty_closure initial_state
   \<and> Execute_node (relabel drop_holder (Execute (Suc (Suc (Suc 0)))))
         (relabel_printer drop_holder (Print_holder (Suc (Suc (Suc 0))))) first_return_wins
         empty_closure initial_state
       = (Inl (ReturnSignal HNone), empty_closure, initial_state)
   \<and> Execute (Suc (Suc 0)) (MethodBody (NumericConst 3)) empty_closure initial_state
       = (Inr HNone, empty_closure, initial_state)
   \<and> Execute (Suc (Suc 0)) (Sub (StringConst ''a'') (NumericConst 1)) empty_closure initial_state
       = (Inl (RuntimeError ''Execute(): SUB --runtime_error''), empty_closure, initial_state)
   \<and> Execute (Suc (Suc (Suc 0))) (MethodBody (Sub (StringConst ''a'') (NumericConst 1))) empty_closure initial_state
       = (Inl (RuntimeError ''Execute(): SUB --runtime_error''), empty_closure, initial_state)"
proof -
  note rmb = Return_MethodBody [where c = empty_closure and st = initial_state
      and c' = empty_closure and st' = initial_state]
  have a: "Execute (Suc 0) (NumericConst 3) empty_closure initial_state
             = (Inr (HNumber 3), empty_closure, initial_state)"
    by simp
  from rmb [where n = "Suc 0" and s = "NumericConst 3" and h = "HNumber 3"] a
  have b: "Execute (Suc (Suc 0)) (Return (NumericConst 3)) empty_closure initial_state
       = (Inl (ReturnSignal (HNumber 3)), empty_closure, initial_state)"
    by blast
  have t: "Execute (Suc (Suc 0)) (BoolConst True) empty_closure initial_state
             = (Inr (HBool True), empty_closure, initial_state) \<and> IsTrue (HBool True)"
    by simp
  have f: "Execute (Suc (Suc 0)) (BoolConst False) empty_closure initial_state
             = (Inr (HBool False), empty_closure, initial_state) \<and> \<not> IsTrue (HBool False)"
    by simp
  from rmb [where n = "Suc (Suc 0)" and cnd = "BoolConst True" and v = "HBool True"
      and ?c1.0 = empty_closure and ?st1.0 = initial_state and s = "Return (NumericConst 3)"
      and h = "HNumber 3" and els = None] t b
  have c: "Execute (Suc (Suc (Suc 0))) return_in_if empty_closure initial_state
       = (Inl (ReturnSignal (HNumber 3)), empty_closure, initial_state)"
    unfolding return_in_if_def by blast
  from rmb [where n = "Suc (Suc 0)" and cnd = "BoolConst False" and v = "HBool False"
      and ?c1.0 = empty_closure and ?st1.0 = initial_state and s = "Return (NumericConst 3)"
      and h = "HNumber 3" and thn = NoneConst] f b
  have c': "Execute (Suc (Suc (Suc 0))) (IfElse (BoolConst False) NoneConst (Some (Return (NumericConst 3))))
         empty_closure initial_state
       = (Inl (ReturnSignal (HNumber 3)), empty_closure, initial_state)"
    by blast
  have d0: "Execute (Suc (Suc (Suc (Suc 0)))) (Compound []) empty_closure initial_state
              = (Inr HNone, empty_closure, initial_state)"
    by (simp add: Compound_Execute_def)
  from rmb [where n = "Suc (Suc (Suc 0))" and pre = "[]" and ?h0.0 = HNone
      and ?c0.0 = empty_closure and ?st0.0 = initial_state and s = return_in_if
      and h = "HNumber 3" and post = "[Return (NumericConst 4)]"] d0 c
  have d: "Execute (Suc (Suc (Suc (Suc 0)))) first_return_wins empty_closure initial_state
       = (Inl (ReturnSignal (HNumber 3)), empty_closure, initial_state)"
    unfolding first_return_wins_def by simp
  from rmb [where n = "Suc (Suc (Suc (Suc 0)))" and b = first_return_wins and h = "HNumber 3"] d
  have e: "Execute (Suc (Suc (Suc (Suc (Suc 0))))) (MethodBody first_return_wins) empty_closure initial_state
       = (Inr (HNumber 3), empty_closure, initial_state)"
    by blast
  have g1: "\<not> is_MethodBody skipped_return"
    by (simp add: skipped_return_def)
  have g2: "\<not> escapes is_return (fst (Execute (Suc (Suc (Suc 0))) skipped_return empty_closure initial_state))"
    by (simp add: skipped_return_def IfElse_Execute_def)
  have g3: "agrees_unless is_return (Execute (Suc (Suc 0))) (without_return (Execute (Suc (Suc 0))))"
    unfolding agrees_unless_def without_return_def by simp
  have g4: "printer_agrees_unless is_return (Print_holder (Suc (Suc 0)))
         (printer_without_return (Print_holder (Suc (Suc 0))))"
    unfolding printer_agrees_unless_def printer_without_return_def by simp
  from rmb [where n = "Suc (Suc 0)" and t = skipped_return
      and ex' = "without_return (Execute (Suc (Suc 0)))"
      and pr' = "printer_without_return (Print_holder (Suc (Suc 0)))"] g1 g2 g3 g4
  have g: "Execute_node (without_return (Execute (Suc (Suc 0))))
         (printer_without_return (Print_holder (Suc (Suc 0)))) skipped_return empty_closure initial_state
       = Execute (Suc (Suc (Suc 0))) skipped_return empty_closure initial_state"
    by blast
  have r1: "\<not> is_MethodBody first_return_wins \<and> \<not> is_Return first_return_wins"
    by (simp add: first_return_wins_def)
  from rmb [where n = "Suc (Suc (Suc 0))" and t = first_return_wins and f = drop_holder] r1
  have "Execute_node (relabel drop_holder (Execute (Suc (Suc (Suc 0)))))
         (relabel_printer drop_holder (Print_holder (Suc (Suc (Suc 0))))) first_return_wins
         empty_closure initial_state
       = relabel_outcome drop_holder
           (Execute (Suc (Suc (Suc (Suc 0)))) first_return_wins empty_closure initial_state)"
    by blast
  then have r: "Execute_node (relabel drop_holder (Execute (Suc (Suc (Suc 0)))))
         (relabel_printer drop_holder (Print_holder (Suc (Suc (Suc 0))))) first_return_wins
         empty_closure initial_state
       = (Inl (ReturnSignal HNone), empty_closure, initial_state)"
    unfolding d by (simp add: drop_holder_def)
  from rmb [where n = "Suc 0" and b = "NumericConst 3" and h = "HNumber 3"] a
  have m1: "Execute (Suc (Suc 0)) (MethodBody (NumericConst 3)) empty_closure initial_state
       = (Inr HNone, empty_closure, initial_state)"
    by blast
  have m2: "Execute (Suc (Suc 0)) (Sub (StringConst ''a'') (NumericConst 1)) empty_closure initial_state
       = (Inl (RuntimeError ''Execute(): SUB --runtime_error''), empty_closure, initial_state)"
    by (simp add: Sub_Execute_def operands_def)
  from rmb [where n = "Suc (Suc 0)" and b = "Sub (StringConst ''a'') (NumericConst 1)"
      and msg = "''Execute(): SUB --runtime_error''"] m2
  have m3: "Execute (Suc (Suc (Suc 0))) (MethodBody (Sub (StringConst ''a'') (NumericConst 1))) empty_closure initial_state
       = (Inl (RuntimeError ''Execute(): SUB --runtime_error''), empty_closure, initial_state)"
    by blast
  from a b c c' d e g2 g3 g4 g r m1 m2 m3 show ?thesis by blast
qed


section \<open>Dotted names\<close>

text \<open>
  C5: on the chain x.y with x bound to the number 1 and y bound to the number 2 in the
  same closure, VariableValue::Execute raises no error although x is not a class
  instance: it looks y up in the closure again and returns 2. When x is an instance, y is
  looked up in its fields (5, not the 2 of the closure), and a name missing there raises
  the runtime error.
\<close>

theorem VariableValue_non_instance:
  "Execute (Suc 0) (VariableValue [''x'', ''y''])
     (empty_closure(''x'' \<mapsto> HNumber 1, ''y'' \<mapsto> HNumber 2)) initial_state
   = (Inr (HNumber 2), empty_closure(''x'' \<mapsto> HNumber 1, ''y'' \<mapsto> HNumber 2), initial_state)
   \<and> fst (Execute (Suc 0) (VariableValue [''x'', ''y''])
        (empty_closure(''x'' \<mapsto> HInstance 0 plain_class, ''y'' \<mapsto> HNumber 2)) point_state)
      = Inr (HNumber 5)
   \<and> fst (Execute (Suc 0) (VariableValue [''x'', ''z''])
        (empty_closure(''x'' \<mapsto> HInstance 0 plain_class, ''y'' \<mapsto> HNumber 2)) point_state)
      = Inl (RuntimeError ''runtime_error VariableValue::Execute()'')"
  by (simp add: VariableValue_Execute_def point_state_def)

section \<open>Comparison of class instances\<close>

text \<open>
  C9: for an instance whose class has __lt__ of arity 1 and no __eq__ of arity 1, and
  any right operand: when Less returns true, Greater returns false in the same final
  state; when Less returns false, Greater raises the runtime error of Equal.
\<close>

theorem Greater_without_eq:
  assumes "HasMethod cls ''__lt__'' 1" and "\<not> HasMethod cls ''__eq__'' 1"
  shows "(Less (Execute n) (HInstance a cls) rhs st = (Inr True, st') \<longrightarrow>
            Greater (Execute n) (HInstance a cls) rhs st = (Inr False, st'))
       \<and> (Less (Execute n) (HInstance a cls) rhs st = (Inr False, st') \<longrightarrow>
            Greater (Execute n) (HInstance a cls) rhs st
              = (Inl (RuntimeError ''Cannot compare objects for equality''), st'))"
  using assms by (simp add: Greater_def Equal_def)

theorem Greater_without_eq_witness:
  "HasMethod lt_false_class ''__lt__'' 1 \<and> \<not> HasMethod lt_false_class ''__eq__'' 1
   \<and> Less (Execute (Suc (Suc (Suc 0)))) (HInstance 0 lt_false_class) (HNumber 5) initial_state
       = (Inr False, initial_state)
   \<and> Greater (Execute (Suc (Suc (Suc 0)))) (HInstance 0 lt_false_class) (HNumber 5) initial_state
       = (Inl (RuntimeError ''Cannot compare objects for equality''), initial_state)
   \<and> HasMethod lt_true_class ''__lt__'' 1 \<and> \<not> HasMethod lt_true_class ''__eq__'' 1
   \<and> Less (Execute (Suc (Suc (Suc 0)))) (HInstance 0 lt_true_class) (HNumber 5) initial_state
       = (Inr True, initial_state)
   \<and> Greater (Execute (Suc (Suc (Suc 0)))) (HInstance 0 lt_true_class) (HNumber 5) initial_state
       = (Inr False, initial_state)"
proof -
  have f1: "HasMethod lt_false_class ''__lt__'' 1" and f2: "\<not> HasMethod lt_false_class ''__eq__'' 1"
    by (simp_all add: HasMethod_def lt_false_class_def)
  have f3: "Less (Execute (Suc (Suc (Suc 0)))) (HInstance 0 lt_false_class) (HNumber 5) initial_state
       = (Inr False, initial_state)"
    by (simp add: Less_def Call_def HasMethod_def lt_false_class_def MethodBody_Execute_def
        Return_Execute_def)
  have t1: "HasMethod lt_true_class ''__lt__'' 1" and t2: "\<not> HasMethod lt_true_class ''__eq__'' 1"
    by (simp_all add: HasMethod_def lt_true_class_def)
  have t3: "Less (Execute (Suc (Suc (Suc 0)))) (HInstance 0 lt_true_class) (HNumber 5) initial_state
       = (Inr True, initial_state)"
    by (simp add: Less_def Call_def HasMethod_def lt_true_class_def MethodBody_Execute_def
        Return_Execute_def)
  from Greater_without_eq [OF f1 f2, of "Suc (Suc (Suc 0))" 0 "HNumber 5" initial_state initial_state] f3
  have f4: "Greater (Execute (Suc (Suc (Suc 0)))) (HInstance 0 lt_false_class) (HNumber 5) initial_state
       = (Inl (RuntimeError ''Cannot compare objects for equality''), initial_state)"
    by blast
  from Greater_without_eq [OF t1 t2, of "Suc (Suc (Suc 0))" 0 "HNumber 5" initial_state initial_state] t3
  have t4: "Greater (Execute (Suc (Suc (Suc 0)))) (HInstance 0 lt_true_class) (HNumber 5) initial_state
       = (Inr False, initial_state)"
    by blast
  from f1 f2 f3 f4 t1 t2 t3 t4 show ?thesis by blast
qed

section \<open>Instance creation\<close>






section \<open>Lexer: end of input\<close>

text \<open>
  C4: on the input a: / two spaces, y, ending without a line feed inside the indented
  block, the exhausted stream yields Dedent and then Eof; no Newline is emitted after
  the identifier y, although the last token before the end of input is not a Newline.
  At level 0 the input y without a line feed does get its Newline before Eof, and a
  further advance past Eof returns Eof without adding a token.
\<close>

theorem eof_inside_block_no_Newline:
  "tokens_after 6 indented_unterminated
     = (Inr TEof, [TId ''a'', TChar CHR '':'', TNewline, TIndent, TId ''y'', TDedent, TEof])
   \<and> tokens_after 2 ''y'' = (Inr TEof, [TId ''y'', TNewline, TEof])
   \<and> tokens_after 3 ''y'' = (Inr TEof, [TId ''y'', TNewline, TEof])"
  by code_simp

section \<open>Lexer: expectations\<close>

text \<open>
  C6: with the current token Id x, Expect with kind Char and value colon returns without
  raising LexerError, and so does ExpectNext with the same arguments when the next
  token is Id y: a token of another kind is accepted. The one-argument Expect does
  raise LexerError on the same token, and the two-argument one does for a token of the
  expected kind with another value.
\<close>

theorem Expect_value_other_kind:
  "Expect_value (TChar CHR '':'') (snd (Lexer (new_istream ''x y''))) = Inr ()
   \<and> fst (ExpectNext_value (TChar CHR '':'') (snd (Lexer (new_istream ''x y'')))) = Inr ()
   \<and> Expect (TChar CHR '':'') (snd (Lexer (new_istream ''x y'')))
        = Inl (LexerError ''Expect(): Wrong current token type'')
   \<and> Expect_value (TId ''z'') (snd (Lexer (new_istream ''x y'')))
        = Inl (LexerError ''Expect(): Wrong current token type or value'')"
  by code_simp

section \<open>Lexer: string literals\<close>

text \<open>
  C7: a string literal with a line feed before its closing quote is lexed into one String
  token whose value contains the line feed; no LexerError is raised. A literal that the
  end of the input leaves open does raise LexerError.
\<close>

theorem string_with_line_feed:
  "tokens_after 0 broken_string
     = (Inr (TString (''a'' @ [LF] @ ''b'')), [TString (''a'' @ [LF] @ ''b'')])
   \<and> tokens_after 0 unterminated_string
        = (Inl (LexerError ''GetStringLexeme(): Wrong string format''), [])"
  by code_simp

section \<open>Lexer: indentation\<close>

text \<open>
  C8, as stated, fails. The second line of the input x / one space, y has an odd number
  of leading spaces, and the lexer produces the tokens of both lines up to Eof without
  any LexerError. Nor is the new level always the count divided by 2: on x / four
  spaces, y the lexer emits one Indent, leaves the level at 1, and raises LexerError on
  the next call, although the count is even. At the start of the file a line with
  leading spaces makes the constructor throw out_of_range (CurrentToken on the empty
  token vector), and after an indented comment line the characters of the comment are
  put back and lexed: x / two spaces, #c / one space, y yields Id c.
\<close>

theorem odd_indent_counterexample:
  "tokens_after 4 one_space_line = (Inr TEof, [TId ''x'', TNewline, TId ''y'', TNewline, TEof])
   \<and> tokens_after 2 four_space_line = (Inr TIndent, [TId ''x'', TNewline, TIndent])
   \<and> m_last_indent (snd (advance 2 (Lexer (new_istream four_space_line)))) = 1
   \<and> tokens_after 3 four_space_line
        = (Inl (LexerError ''ParseNextToken(): FLAG error-- ''), [TId ''x'', TNewline, TIndent])
   \<and> tokens_after 0 indented_first_line = (Inl OutOfRange, [])
   \<and> tokens_after 2 indented_comment = (Inr (TId ''c''), [TId ''x'', TNewline, TId ''c''])"
proof (intro conjI)
  show "tokens_after 4 one_space_line = (Inr TEof, [TId ''x'', TNewline, TId ''y'', TNewline, TEof])"
    by code_simp
  show "tokens_after 2 four_space_line = (Inr TIndent, [TId ''x'', TNewline, TIndent])"
    by code_simp
  show "m_last_indent (snd (advance 2 (Lexer (new_istream four_space_line)))) = 1"
    by code_simp
  show "tokens_after 3 four_space_line
        = (Inl (LexerError ''ParseNextToken(): FLAG error-- ''), [TId ''x'', TNewline, TIndent])"
    by code_simp
  show "tokens_after 0 indented_first_line = (Inl OutOfRange, [])"
    by code_simp
  show "tokens_after 2 indented_comment = (Inr (TId ''c''), [TId ''x'', TNewline, TId ''c''])"
    by code_simp
qed

text \<open>
  The loops of the lexer are unfolded one step at a time in the proofs below.
\<close>

declare RemoveSpaces.simps [simp del]
declare RemoveEmptyLines_loop.simps [simp del]
declare IsIndentLexeme_loop.simps [simp del]

lemma unget_funpow_restore:
  "(stream_unget ^^ length xs)
     \<lparr>consumed = rev xs @ cs, pending = r, eofbit = False, failbit = False\<rparr>
   = \<lparr>consumed = cs, pending = xs @ r, eofbit = False, failbit = False\<rparr>"
proof (induction xs arbitrary: r rule: rev_induct)
  case Nil
  then show ?case by simp
next
  case (snoc x xs)
  have "(stream_unget ^^ length (xs @ [x]))
          \<lparr>consumed = rev (xs @ [x]) @ cs, pending = r, eofbit = False, failbit = False\<rparr>
        = (stream_unget ^^ length xs)
            (stream_unget \<lparr>consumed = x # rev xs @ cs, pending = r, eofbit = False, failbit = False\<rparr>)"
    by (simp add: funpow_swap1)
  also have "\<dots> = (stream_unget ^^ length xs)
            \<lparr>consumed = rev xs @ cs, pending = x # r, eofbit = False, failbit = False\<rparr>"
    by (simp add: stream_unget_def)
  also have "\<dots> = \<lparr>consumed = cs, pending = xs @ x # r, eofbit = False, failbit = False\<rparr>"
    by (rule snoc.IH)
  finally show ?case by simp
qed

lemma stream_get_good:
  "stream_get \<lparr>consumed = cs, pending = x # r, eofbit = False, failbit = False\<rparr>
     = (Some x, \<lparr>consumed = x # cs, pending = r, eofbit = False, failbit = False\<rparr>)"
  by (simp add: stream_get_def good_def)

lemma RemoveEmptyLines_loop_spaces:
  assumes "ch \<noteq> CHR '' ''" and "ch \<noteq> LF" and "ch \<noteq> CHR ''#''"
  shows "m_input lx = \<lparr>consumed = cs, pending = replicate k (CHR '' '') @ ch # rest,
                        eofbit = False, failbit = False\<rparr> \<Longrightarrow>
         RemoveEmptyLines_loop n lx
           = lx\<lparr>m_c := ch,
                 m_input := (stream_unget ^^ (n + k + 1))
                    \<lparr>consumed = ch # replicate k (CHR '' '') @ cs, pending = rest,
                      eofbit = False, failbit = False\<rparr>\<rparr>"
proof (induction k arbitrary: n lx cs)
  case 0
  then show ?case
    using assms by (subst RemoveEmptyLines_loop.simps) (simp add: stream_get_good)
next
  case (Suc k)
  let ?lx' = "lx\<lparr>m_c := CHR '' '',
                 m_input := \<lparr>consumed = CHR '' '' # cs, pending = replicate k (CHR '' '') @ ch # rest,
                              eofbit = False, failbit = False\<rparr>\<rparr>"
  have step: "RemoveEmptyLines_loop n lx = RemoveEmptyLines_loop (n + 1) ?lx'"
    using Suc.prems by (subst RemoveEmptyLines_loop.simps) (simp add: stream_get_good LF_def)
  have "RemoveEmptyLines_loop (n + 1) ?lx'
          = ?lx'\<lparr>m_c := ch,
                 m_input := (stream_unget ^^ (n + 1 + k + 1))
                    \<lparr>consumed = ch # replicate k (CHR '' '') @ CHR '' '' # cs, pending = rest,
                      eofbit = False, failbit = False\<rparr>\<rparr>"
    by (rule Suc.IH) simp
  with step show ?case
    by (simp add: replicate_app_Cons_same)
qed

lemma IsIndentLexeme_loop_reach:
  assumes "ch \<noteq> CHR '' ''"
  shows "m_input lx = \<lparr>consumed = cs, pending = replicate k (CHR '' '') @ ch # rest,
                        eofbit = False, failbit = False\<rparr> \<Longrightarrow>
         (n + int k) div 2 \<le> m_last_indent lx \<Longrightarrow>
         IsIndentLexeme_loop n lx
           = (if (n + int k) div 2 = m_last_indent lx then
                (False, lx\<lparr>m_c := ch,
                            m_input := \<lparr>consumed = ch # replicate k (CHR '' '') @ cs, pending = rest,
                                         eofbit = False, failbit = False\<rparr>\<rparr>)
              else
                (True, lx\<lparr>m_c := ch,
                           m_input := stream_unget
                             (if (n + int k) div 2 + 1 \<noteq> m_last_indent lx
                              then stream_unget (stream_unget
                                     \<lparr>consumed = ch # replicate k (CHR '' '') @ cs, pending = rest,
                                       eofbit = False, failbit = False\<rparr>)
                              else \<lparr>consumed = ch # replicate k (CHR '' '') @ cs, pending = rest,
                                     eofbit = False, failbit = False\<rparr>),
                           m_last_indent := m_last_indent lx - 1,
                           m_doc := m_doc lx @ [TDedent]\<rparr>))"
proof (induction k arbitrary: n lx cs)
  case 0
  then show ?case
    using assms by (subst IsIndentLexeme_loop.simps) (simp add: stream_get_good)
next
  case (Suc k)
  let ?lx' = "lx\<lparr>m_c := CHR '' '',
                 m_input := \<lparr>consumed = CHR '' '' # cs, pending = replicate k (CHR '' '') @ ch # rest,
                              eofbit = False, failbit = False\<rparr>\<rparr>"
  from Suc.prems(2) have le: "(n + 1) div 2 \<le> m_last_indent lx" and le': "(n + 1 + int k) div 2 \<le> m_last_indent ?lx'"
    by (simp_all add: algebra_simps)
  have step: "IsIndentLexeme_loop n lx = IsIndentLexeme_loop (n + 1) ?lx'"
    using Suc.prems(1) le by (subst IsIndentLexeme_loop.simps) (simp add: stream_get_good)
  have eq: "n + 1 + int k = n + int (Suc k)" by simp
  have rp: "replicate k (CHR '' '') @ CHR '' '' # cs = replicate (Suc k) (CHR '' '') @ cs"
    by (simp add: replicate_app_Cons_same)
  have mi: "m_input ?lx' = \<lparr>consumed = CHR '' '' # cs, pending = replicate k (CHR '' '') @ ch # rest,
                              eofbit = False, failbit = False\<rparr>"
    by simp
  note ih = Suc.IH [OF mi le', unfolded eq rp]
  show ?case
    unfolding step ih by simp
qed

lemma IsIndentLexeme_loop_indent:
  "m_input lx = \<lparr>consumed = cs, pending = replicate k (CHR '' '') @ rest,
                  eofbit = False, failbit = False\<rparr> \<Longrightarrow>
   0 < j \<Longrightarrow> j \<le> k \<Longrightarrow> n = 2 * m_last_indent lx + 2 - int j \<Longrightarrow>
   IsIndentLexeme_loop n lx
     = (True, lx\<lparr>m_c := CHR '' '',
                m_input := \<lparr>consumed = replicate j (CHR '' '') @ cs,
                             pending = replicate (k - j) (CHR '' '') @ rest,
                             eofbit = False, failbit = False\<rparr>,
                m_last_indent := m_last_indent lx + 1,
                m_doc := m_doc lx @ [TIndent]\<rparr>)"
proof (induction j arbitrary: n k lx cs)
  case 0
  then show ?case by simp
next
  case (Suc j)
  from Suc.prems(3) obtain k' where k: "k = Suc k'" by (cases k) auto
  show ?case
  proof (cases "j = 0")
    case True
    with Suc.prems k show ?thesis
      by (subst IsIndentLexeme_loop.simps) (simp add: stream_get_good)
  next
    case False
    let ?lx' = "lx\<lparr>m_c := CHR '' '',
                   m_input := \<lparr>consumed = CHR '' '' # cs, pending = replicate k' (CHR '' '') @ rest,
                                eofbit = False, failbit = False\<rparr>\<rparr>"
    from False Suc.prems(4) have ne: "(n + 1) div 2 - 1 \<noteq> m_last_indent lx"
      by simp
    have step: "IsIndentLexeme_loop n lx = IsIndentLexeme_loop (n + 1) ?lx'"
      using Suc.prems(1) k ne by (subst IsIndentLexeme_loop.simps) (simp add: stream_get_good)
    have "IsIndentLexeme_loop (n + 1) ?lx'
            = (True, ?lx'\<lparr>m_c := CHR '' '',
                m_input := \<lparr>consumed = replicate j (CHR '' '') @ CHR '' '' # cs,
                             pending = replicate (k' - j) (CHR '' '') @ rest,
                             eofbit = False, failbit = False\<rparr>,
                m_last_indent := m_last_indent ?lx' + 1,
                m_doc := m_doc ?lx' @ [TIndent]\<rparr>)"
      using False Suc.prems k by (intro Suc.IH) simp_all
    with step k show ?thesis
      by (simp add: replicate_app_Cons_same)
  qed
qed


lemma RemoveEmptyLines_spaces:
  assumes "m_input lx = \<lparr>consumed = cs, pending = replicate s (CHR '' '') @ ch # rest,
                          eofbit = False, failbit = False\<rparr>"
    and "ch \<noteq> CHR '' ''" and "ch \<noteq> LF" and "ch \<noteq> CHR ''#''"
  shows "RemoveEmptyLines lx = lx\<lparr>m_c := ch\<rparr>"
proof -
  have "(stream_unget ^^ length (replicate s (CHR '' '') @ [ch]))
          \<lparr>consumed = rev (replicate s (CHR '' '') @ [ch]) @ cs, pending = rest,
            eofbit = False, failbit = False\<rparr>
        = \<lparr>consumed = cs, pending = (replicate s (CHR '' '') @ [ch]) @ rest,
            eofbit = False, failbit = False\<rparr>"
    by (rule unget_funpow_restore)
  then have restored: "(stream_unget ^^ (0 + s + 1))
          \<lparr>consumed = ch # replicate s (CHR '' '') @ cs, pending = rest,
            eofbit = False, failbit = False\<rparr> = m_input lx"
    using assms(1) by simp
  have "RemoveEmptyLines lx = lx\<lparr>m_c := ch, m_input := m_input lx\<rparr>"
    unfolding RemoveEmptyLines_def
    using RemoveEmptyLines_loop_spaces [OF assms(2,3,4) assms(1), of 0] restored by simp
  then show ?thesis by simp
qed

declare GetStringLexeme_loop.simps [simp del]
declare GetNumberLexeme_loop.simps [simp del]
declare GetIdOrKeyLexeme_loop.simps [simp del]

lemma RemoveSpaces_last_indent [simp]:
  "m_last_indent (RemoveSpaces lx) = m_last_indent lx"
proof (induction lx rule: RemoveSpaces.induct)
  case (1 lx)
  then show ?case
    by (subst RemoveSpaces.simps) (simp split: prod.splits option.splits)
qed

lemma stream_get_shorter:
  "stream_get s = (Some ch, s') \<Longrightarrow> length (pending s') < length (pending s)"
  by (auto simp: stream_get_def split: if_splits list.splits)

lemma stream_get_not_longer:
  "stream_get s = (r, s') \<Longrightarrow> length (pending s') \<le> length (pending s)"
  by (auto simp: stream_get_def split: if_splits list.splits)

lemma GetStringLexeme_loop_last_indent [simp]:
  "m_last_indent (snd (GetStringLexeme_loop e l lx)) = m_last_indent lx"
proof (induction "length (pending (m_input lx))" arbitrary: l lx rule: less_induct)
  case less
  obtain r s' where g: "stream_get (m_input lx) = (r, s')"
    by (cases "stream_get (m_input lx)")
  show ?case
  proof (cases r)
    case None
    with g show ?thesis
      by (subst GetStringLexeme_loop.simps) simp
  next
    case (Some ch)
    obtain r2 s2 where g2: "stream_get s' = (r2, s2)"
      by (cases "stream_get s'")
    from g Some have sh: "length (pending s') < length (pending (m_input lx))"
      by (simp add: stream_get_shorter)
    from g2 have "length (pending s2) \<le> length (pending s')"
      by (rule stream_get_not_longer)
    with sh have sh2: "length (pending s2) < length (pending (m_input lx))"
      by simp
    have ih1: "m_last_indent (snd (GetStringLexeme_loop e l' (lx\<lparr>m_c := c', m_input := s'\<rparr>)))
                 = m_last_indent lx" for l' c'
      using less [of "lx\<lparr>m_c := c', m_input := s'\<rparr>" l'] sh by simp
    have ih2: "m_last_indent (snd (GetStringLexeme_loop e l' (lx\<lparr>m_c := c', m_input := s2\<rparr>)))
                 = m_last_indent lx" for l' c'
      using less [of "lx\<lparr>m_c := c', m_input := s2\<rparr>" l'] sh2 by simp
    show ?thesis
    proof (cases "ch = e")
      case True
      then show ?thesis
        by (subst GetStringLexeme_loop.simps) (simp add: g Some Let_def)
    next
      case False
      show ?thesis
      proof (cases r2)
        case None
        with False show ?thesis
          by (subst GetStringLexeme_loop.simps) (simp add: g Some g2 ih1 ih2)
      next
        case (Some e2)
        with False show ?thesis
          by (subst GetStringLexeme_loop.simps) (simp add: g \<open>r = Some ch\<close> g2 ih1 ih2 Let_def)
      qed
    qed
  qed
qed

lemma GetNumberLexeme_loop_last_indent [simp]:
  "m_last_indent (snd (GetNumberLexeme_loop l lx)) = m_last_indent lx"
proof (induction l lx rule: GetNumberLexeme_loop.induct)
  case (1 l lx)
  then show ?case
    by (subst GetNumberLexeme_loop.simps) (simp split: prod.splits option.splits)
qed

lemma GetIdOrKeyLexeme_loop_last_indent [simp]:
  "m_last_indent (snd (GetIdOrKeyLexeme_loop l lx)) = m_last_indent lx"
proof (induction l lx rule: GetIdOrKeyLexeme_loop.induct)
  case (1 l lx)
  then show ?case
    by (subst GetIdOrKeyLexeme_loop.simps) (simp split: prod.splits option.splits)
qed

lemma GetNumberLexeme_last_indent:
  "m_last_indent (snd (GetNumberLexeme lx)) = m_last_indent lx"
proof -
  obtain r lx1 where r: "GetNumberLexeme_loop [m_c lx] lx = (r, lx1)"
    by (cases "GetNumberLexeme_loop [m_c lx] lx")
  have "m_last_indent (snd (GetNumberLexeme_loop [m_c lx] lx)) = m_last_indent lx"
    by (rule GetNumberLexeme_loop_last_indent)
  with r have "m_last_indent lx1 = m_last_indent lx" by simp
  with r show ?thesis
    by (simp add: GetNumberLexeme_def Let_def split: sum.splits)
qed

lemma GetIdOrKeyLexeme_last_indent:
  "m_last_indent (snd (GetIdOrKeyLexeme lx)) = m_last_indent lx"
proof -
  obtain r lx1 where r: "GetIdOrKeyLexeme_loop [m_c lx] lx = (r, lx1)"
    by (cases "GetIdOrKeyLexeme_loop [m_c lx] lx")
  have "m_last_indent (snd (GetIdOrKeyLexeme_loop [m_c lx] lx)) = m_last_indent lx"
    by (rule GetIdOrKeyLexeme_loop_last_indent)
  with r have "m_last_indent lx1 = m_last_indent lx" by simp
  with r show ?thesis
    by (simp add: GetIdOrKeyLexeme_def Let_def)
qed

lemma GetEqLexeme_last_indent:
  "m_last_indent (snd (GetEqLexeme lx)) = m_last_indent lx"
  by (simp add: GetEqLexeme_def Let_def split: prod.splits option.splits)

lemma ParseNextToken_lexeme_last_indent:
  "m_last_indent (snd (ParseNextToken_lexeme lx)) = m_last_indent lx"
  unfolding ParseNextToken_lexeme_def
  by (simp add: GetEqLexeme_last_indent GetCharLexeme_def GetStringLexeme_def
        GetNumberLexeme_last_indent GetIdOrKeyLexeme_last_indent Let_def)

lemma ParseNextToken_last_indent:
  "m_last_indent (snd (ParseNextToken lx)) = m_last_indent lx"
  unfolding ParseNextToken_def
  by (simp add: ParseNextToken_lexeme_last_indent RemoveComment_def emit_def CurrentToken_def Let_def)

lemma NextToken_parse_last_indent:
  "m_last_indent (snd (NextToken_parse lx)) = m_last_indent lx"
  by (simp add: NextToken_parse_def ParseNextToken_last_indent)

lemma RemoveEmptyLines_loop_blank:
  "m_input lx = \<lparr>consumed = cs, pending = replicate k (CHR '' '') @ LF # r,
                  eofbit = False, failbit = False\<rparr> \<Longrightarrow>
   RemoveEmptyLines_loop n lx
     = RemoveEmptyLines_loop 0
         (lx\<lparr>m_c := LF,
              m_input := \<lparr>consumed = LF # replicate k (CHR '' '') @ cs, pending = r,
                           eofbit = False, failbit = False\<rparr>\<rparr>)"
proof (induction k arbitrary: n lx cs)
  case 0
  then show ?case
    by (subst RemoveEmptyLines_loop.simps) (simp add: stream_get_good LF_def)
next
  case (Suc k)
  let ?lx' = "lx\<lparr>m_c := CHR '' '',
                 m_input := \<lparr>consumed = CHR '' '' # cs, pending = replicate k (CHR '' '') @ LF # r,
                              eofbit = False, failbit = False\<rparr>\<rparr>"
  have step: "RemoveEmptyLines_loop n lx = RemoveEmptyLines_loop (n + 1) ?lx'"
    using Suc.prems by (subst RemoveEmptyLines_loop.simps) (simp add: stream_get_good LF_def)
  have "RemoveEmptyLines_loop (n + 1) ?lx'
          = RemoveEmptyLines_loop 0
              (?lx'\<lparr>m_c := LF,
                    m_input := \<lparr>consumed = LF # replicate k (CHR '' '') @ CHR '' '' # cs, pending = r,
                                 eofbit = False, failbit = False\<rparr>\<rparr>)"
    by (rule Suc.IH) simp
  with step show ?case
    by (simp add: replicate_app_Cons_same)
qed

lemma stream_getline_line:
  assumes "LF \<notin> set t"
  shows "stream_getline \<lparr>consumed = cs, pending = t @ LF # r, eofbit = False, failbit = False\<rparr>
           = \<lparr>consumed = LF # rev t @ cs, pending = r, eofbit = False, failbit = False\<rparr>"
proof -
  from assms have d: "dropWhile (\<lambda>x. x \<noteq> LF) (t @ LF # r) = LF # r"
    by (induction t) auto
  from assms have k: "takeWhile (\<lambda>x. x \<noteq> LF) (t @ LF # r) = t"
    by (induction t) auto
  show ?thesis
    by (simp add: stream_getline_def good_def list.case_eq_if d k)
qed

lemma RemoveEmptyLines_loop_comment:
  assumes "m_input lx = \<lparr>consumed = cs, pending = CHR ''#'' # t @ LF # r,
                          eofbit = False, failbit = False\<rparr>"
    and "LF \<notin> set t"
  shows "RemoveEmptyLines_loop n lx
     = RemoveEmptyLines_loop n
         (lx\<lparr>m_c := CHR ''#'',
              m_input := \<lparr>consumed = LF # rev t @ CHR ''#'' # cs, pending = r,
                           eofbit = False, failbit = False\<rparr>\<rparr>)"
  using assms(1)
  by (subst RemoveEmptyLines_loop.simps)
     (simp add: stream_get_good stream_getline_line [OF assms(2)])

lemma RemoveEmptyLines_skipped:
  assumes ch: "ch \<noteq> CHR '' ''" "ch \<noteq> LF" "ch \<noteq> CHR ''#''"
  shows "list_all skipped_line ls \<Longrightarrow>
         m_input lx = \<lparr>consumed = cs,
                        pending = skipped_text ls @ replicate s (CHR '' '') @ ch # rest,
                        eofbit = False, failbit = False\<rparr> \<Longrightarrow>
         RemoveEmptyLines_loop 0 lx
           = lx\<lparr>m_c := ch,
                 m_input := \<lparr>consumed = rev (skipped_text ls) @ cs,
                              pending = replicate s (CHR '' '') @ ch # rest,
                              eofbit = False, failbit = False\<rparr>\<rparr>"
proof (induction ls arbitrary: lx cs)
  case Nil
  then have mi: "m_input lx = \<lparr>consumed = cs, pending = replicate s (CHR '' '') @ ch # rest,
                                eofbit = False, failbit = False\<rparr>"
    by (simp add: skipped_text_def)
  have "RemoveEmptyLines lx = lx\<lparr>m_c := ch\<rparr>"
    by (rule RemoveEmptyLines_spaces [OF mi ch])
  then have "RemoveEmptyLines_loop 0 lx = lx\<lparr>m_c := ch, m_input := m_input lx\<rparr>"
    by (simp add: RemoveEmptyLines_def)
  with mi show ?case
    by (simp add: skipped_text_def)
next
  case (Cons l ls)
  let ?r = "skipped_text ls @ replicate s (CHR '' '') @ ch # rest"
  from Cons.prems(1) have sl: "skipped_line l" and sls: "list_all skipped_line ls"
    by simp_all
  have pend: "skipped_text (l # ls) @ replicate s (CHR '' '') @ ch # rest = l @ LF # ?r"
    by (simp add: skipped_text_def)
  have rv: "rev (skipped_text (l # ls)) @ cs = rev (skipped_text ls) @ LF # rev l @ cs"
    by (simp add: skipped_text_def)
  have "\<exists>c'. RemoveEmptyLines_loop 0 lx
          = RemoveEmptyLines_loop 0
              (lx\<lparr>m_c := c',
                   m_input := \<lparr>consumed = LF # rev l @ cs, pending = ?r,
                                eofbit = False, failbit = False\<rparr>\<rparr>)"
  proof (cases "\<exists>t. l = CHR ''#'' # t")
    case True
    then obtain t where l: "l = CHR ''#'' # t" by blast
    with sl have nt: "LF \<notin> set t" by simp
    have mi: "m_input lx = \<lparr>consumed = cs, pending = CHR ''#'' # t @ LF # ?r,
                              eofbit = False, failbit = False\<rparr>"
      using Cons.prems(2) l unfolding pend by simp
    show ?thesis
      using RemoveEmptyLines_loop_comment [OF mi nt, of 0] l by auto
  next
    case False
    with sl have "list_all (\<lambda>y. y = CHR '' '') l"
      by (cases l) (auto split: if_splits)
    then have "l = replicate (length l) (CHR '' '')"
      by (induction l) simp_all
    then obtain k where l: "l = replicate k (CHR '' '')" ..
    have mi: "m_input lx = \<lparr>consumed = cs, pending = replicate k (CHR '' '') @ LF # ?r,
                              eofbit = False, failbit = False\<rparr>"
      using Cons.prems(2) l unfolding pend by simp
    show ?thesis
      using RemoveEmptyLines_loop_blank [OF mi, of 0] l by auto
  qed
  then obtain c' where step: "RemoveEmptyLines_loop 0 lx
          = RemoveEmptyLines_loop 0
              (lx\<lparr>m_c := c',
                   m_input := \<lparr>consumed = LF # rev l @ cs, pending = ?r,
                                eofbit = False, failbit = False\<rparr>\<rparr>)" ..
  let ?lx' = "lx\<lparr>m_c := c',
                   m_input := \<lparr>consumed = LF # rev l @ cs, pending = ?r,
                                eofbit = False, failbit = False\<rparr>\<rparr>"
  have mi': "m_input ?lx' = \<lparr>consumed = LF # rev l @ cs, pending = ?r,
                                eofbit = False, failbit = False\<rparr>"
    by simp
  show ?case
    unfolding step Cons.IH [OF sls mi'] rv by simp
qed

lemma NextToken_spaces_pos:
  assumes doc: "m_doc lx \<noteq> []" "last (m_doc lx) = TNewline"
    and inp: "m_input lx = \<lparr>consumed = cs, pending = replicate s (CHR '' '') @ ch # rest,
                             eofbit = False, failbit = False\<rparr>"
    and s: "0 < s"
    and ch: "ch \<noteq> CHR '' ''" "ch \<noteq> LF" "ch \<noteq> CHR ''#''"
    and lvl: "0 \<le> m_last_indent lx"
  shows "(int s div 2 = m_last_indent lx \<longrightarrow>
            NextToken lx
              = NextToken_parse
                  (lx\<lparr>m_c := ch,
                       m_input := \<lparr>consumed = ch # replicate s (CHR '' '') @ cs, pending = rest,
                                    eofbit = False, failbit = False\<rparr>\<rparr>))
       \<and> (int s div 2 > m_last_indent lx \<longrightarrow>
            fst (NextToken lx) = Inr TIndent
            \<and> m_doc (snd (NextToken lx)) = m_doc lx @ [TIndent]
            \<and> m_last_indent (snd (NextToken lx)) = m_last_indent lx + 1)
       \<and> (int s div 2 < m_last_indent lx \<longrightarrow>
            fst (NextToken lx) = Inr TDedent
            \<and> m_doc (snd (NextToken lx)) = m_doc lx @ [TDedent]
            \<and> m_last_indent (snd (NextToken lx)) = m_last_indent lx - 1)"
proof -
  from s obtain k where k: "s = Suc k" by (cases s) auto
  let ?lx1 = "lx\<lparr>m_c := CHR '' '',
                 m_input := \<lparr>consumed = CHR '' '' # cs, pending = replicate k (CHR '' '') @ ch # rest,
                              eofbit = False, failbit = False\<rparr>\<rparr>"
  have rel: "RemoveEmptyLines lx = lx\<lparr>m_c := ch\<rparr>"
    by (rule RemoveEmptyLines_spaces [OF inp ch])
  have get: "stream_get (m_input (lx\<lparr>m_c := ch\<rparr>))
               = (Some (CHR '' ''), \<lparr>consumed = CHR '' '' # cs,
                                      pending = replicate k (CHR '' '') @ ch # rest,
                                      eofbit = False, failbit = False\<rparr>)"
    using inp k by (simp add: stream_get_good)
  have cur: "CurrentToken ?lx1 = Inr TNewline"
    using doc by (simp add: CurrentToken_def)
  have next_eq: "NextToken lx =
      (case IsIndentLexeme ?lx1 of
         (True, lx2) \<Rightarrow> (CurrentToken lx2, lx2)
       | (False, lx2) \<Rightarrow> NextToken_parse lx2)"
    unfolding NextToken_def using doc rel get cur by simp
  have mi: "m_input ?lx1 = \<lparr>consumed = CHR '' '' # cs, pending = replicate k (CHR '' '') @ ch # rest,
                              eofbit = False, failbit = False\<rparr>"
    by simp
  have cnt: "1 + int k = int s" using k by simp
  have rp: "replicate k (CHR '' '') @ CHR '' '' # cs = replicate s (CHR '' '') @ cs"
    using k by (simp add: replicate_app_Cons_same)
  have A: "NextToken lx
              = NextToken_parse
                  (lx\<lparr>m_c := ch,
                       m_input := \<lparr>consumed = ch # replicate s (CHR '' '') @ cs, pending = rest,
                                    eofbit = False, failbit = False\<rparr>\<rparr>)"
    if eq: "int s div 2 = m_last_indent lx"
  proof -
    have le: "(1 + int k) div 2 \<le> m_last_indent ?lx1" using eq cnt by simp
    have "IsIndentLexeme ?lx1
            = (False, ?lx1\<lparr>m_c := ch,
                          m_input := \<lparr>consumed = ch # replicate s (CHR '' '') @ cs, pending = rest,
                                       eofbit = False, failbit = False\<rparr>\<rparr>)"
      unfolding IsIndentLexeme_def
      using IsIndentLexeme_loop_reach [OF ch(1) mi le] eq cnt rp by simp
    then show ?thesis unfolding next_eq by simp
  qed
  have B: "fst (NextToken lx) = Inr TDedent
            \<and> m_doc (snd (NextToken lx)) = m_doc lx @ [TDedent]
            \<and> m_last_indent (snd (NextToken lx)) = m_last_indent lx - 1"
    if lt: "int s div 2 < m_last_indent lx"
  proof -
    have le: "(1 + int k) div 2 \<le> m_last_indent ?lx1" using lt cnt by simp
    have ne: "(1 + int k) div 2 \<noteq> m_last_indent ?lx1" using lt cnt by simp
    obtain lx2 where r: "IsIndentLexeme ?lx1 = (True, lx2)"
      and d: "m_doc lx2 = m_doc lx @ [TDedent]" and l: "m_last_indent lx2 = m_last_indent lx - 1"
      unfolding IsIndentLexeme_def
      using IsIndentLexeme_loop_reach [OF ch(1) mi le] ne by simp
    show ?thesis unfolding next_eq r using d l by (simp add: CurrentToken_def)
  qed
  have C: "fst (NextToken lx) = Inr TIndent
            \<and> m_doc (snd (NextToken lx)) = m_doc lx @ [TIndent]
            \<and> m_last_indent (snd (NextToken lx)) = m_last_indent lx + 1"
    if gt: "int s div 2 > m_last_indent lx"
  proof -
    define j where "j = nat (2 * m_last_indent lx + 1)"
    have j: "0 < j" "j \<le> k" "1 = 2 * m_last_indent ?lx1 + 2 - int j"
      using gt lvl k by (simp_all add: j_def)
    have mi': "m_input ?lx1 = \<lparr>consumed = CHR '' '' # cs,
                                pending = replicate k (CHR '' '') @ (ch # rest),
                                eofbit = False, failbit = False\<rparr>"
      by simp
    obtain lx2 where r: "IsIndentLexeme ?lx1 = (True, lx2)"
      and d: "m_doc lx2 = m_doc lx @ [TIndent]" and l: "m_last_indent lx2 = m_last_indent lx + 1"
      unfolding IsIndentLexeme_def
      using IsIndentLexeme_loop_indent [OF mi' j] by simp
    show ?thesis unfolding next_eq r using d l by (simp add: CurrentToken_def)
  qed
  from A B C show ?thesis by blast
qed


lemma NextToken_no_spaces:
  assumes doc: "m_doc lx \<noteq> []" "last (m_doc lx) = TNewline"
    and inp: "m_input lx = \<lparr>consumed = cs, pending = ch # rest,
                             eofbit = False, failbit = False\<rparr>"
    and ch: "ch \<noteq> CHR '' ''" "ch \<noteq> LF" "ch \<noteq> CHR ''#''"
  shows "NextToken lx
           = (if 0 < m_last_indent lx then
                (Inr TDedent,
                 lx\<lparr>m_c := ch, m_dedent_chain := True, m_input := m_input lx,
                      m_last_indent := m_last_indent lx - 1, m_doc := m_doc lx @ [TDedent]\<rparr>)
              else
                NextToken_parse
                  (lx\<lparr>m_c := ch,
                       m_input := \<lparr>consumed = ch # cs, pending = rest,
                                    eofbit = False, failbit = False\<rparr>\<rparr>))"
proof -
  have inp': "m_input lx = \<lparr>consumed = cs, pending = replicate 0 (CHR '' '') @ ch # rest,
                             eofbit = False, failbit = False\<rparr>"
    using inp by simp
  have rel: "RemoveEmptyLines lx = lx\<lparr>m_c := ch\<rparr>"
    by (rule RemoveEmptyLines_spaces [OF inp' ch])
  show ?thesis
    unfolding NextToken_def
    using doc rel inp ch(1)
    by (simp add: stream_get_good CurrentToken_def emit_def stream_unget_def)
qed

lemma NextToken_at_line:
  assumes doc: "m_doc lx \<noteq> []" "last (m_doc lx) = TNewline"
    and inp: "m_input lx = \<lparr>consumed = cs, pending = replicate s (CHR '' '') @ ch # rest,
                             eofbit = False, failbit = False\<rparr>"
    and ch: "ch \<noteq> CHR '' ''" "ch \<noteq> LF" "ch \<noteq> CHR ''#''"
    and lvl: "0 \<le> m_last_indent lx"
  shows "(int s div 2 = m_last_indent lx \<longrightarrow>
            NextToken lx
              = NextToken_parse
                  (lx\<lparr>m_c := ch,
                       m_input := \<lparr>consumed = ch # replicate s (CHR '' '') @ cs, pending = rest,
                                    eofbit = False, failbit = False\<rparr>\<rparr>))
       \<and> (int s div 2 > m_last_indent lx \<longrightarrow>
            fst (NextToken lx) = Inr TIndent
            \<and> m_doc (snd (NextToken lx)) = m_doc lx @ [TIndent]
            \<and> m_last_indent (snd (NextToken lx)) = m_last_indent lx + 1)
       \<and> (int s div 2 < m_last_indent lx \<longrightarrow>
            fst (NextToken lx) = Inr TDedent
            \<and> m_doc (snd (NextToken lx)) = m_doc lx @ [TDedent]
            \<and> m_last_indent (snd (NextToken lx)) = m_last_indent lx - 1)"
proof (cases "0 < s")
  case True
  show ?thesis
    by (rule NextToken_spaces_pos [OF doc inp True ch lvl])
next
  case False
  then have s: "s = 0" by simp
  with inp have inp0: "m_input lx = \<lparr>consumed = cs, pending = ch # rest,
                                      eofbit = False, failbit = False\<rparr>"
    by simp
  show ?thesis
    unfolding NextToken_no_spaces [OF doc inp0 ch] using s lvl by simp
qed

text \<open>
  C8 (amended): the lexer has no test of the parity of the leading spaces, and an odd
  count is not by itself a LexerError. Let NextToken be called when the current token is
  Newline, the level is not negative, and the stream is good and holds: lines that
  consist of spaces only or are comments starting in the first column (ls, each with its
  line feed), then s spaces (s may be 0), then a character ch that is none of space,
  line feed and hash mark. NextToken skips the lines ls and compares s / 2 (integer
  division) with the level. If they are equal (so also for the odd count
  2 * level + 1) it emits no indentation token, lexes the first token of the line, and
  the level stays s / 2. If s / 2 is greater it returns one Indent and the level grows
  by one; if s / 2 is smaller it returns one Dedent and the level drops by one. Hence
  the new level is s / 2 whenever s / 2 differs from the level by at most one.
\<close>

theorem NextToken_leading_spaces:
  assumes doc: "m_doc lx \<noteq> []" "last (m_doc lx) = TNewline"
    and skp: "list_all skipped_line ls"
    and inp: "m_input lx = \<lparr>consumed = cs,
                             pending = skipped_text ls @ replicate s (CHR '' '') @ ch # rest,
                             eofbit = False, failbit = False\<rparr>"
    and ch: "ch \<noteq> CHR '' ''" "ch \<noteq> LF" "ch \<noteq> CHR ''#''"
    and lvl: "0 \<le> m_last_indent lx"
  shows "(int s div 2 = m_last_indent lx \<longrightarrow>
            NextToken lx
              = NextToken_parse
                  (lx\<lparr>m_c := ch,
                       m_input := \<lparr>consumed = ch # replicate s (CHR '' '') @ rev (skipped_text ls) @ cs,
                                    pending = rest, eofbit = False, failbit = False\<rparr>\<rparr>)
            \<and> m_last_indent (snd (NextToken lx)) = m_last_indent lx)
       \<and> (int s div 2 > m_last_indent lx \<longrightarrow>
            fst (NextToken lx) = Inr TIndent
            \<and> m_doc (snd (NextToken lx)) = m_doc lx @ [TIndent]
            \<and> m_last_indent (snd (NextToken lx)) = m_last_indent lx + 1)
       \<and> (int s div 2 < m_last_indent lx \<longrightarrow>
            fst (NextToken lx) = Inr TDedent
            \<and> m_doc (snd (NextToken lx)) = m_doc lx @ [TDedent]
            \<and> m_last_indent (snd (NextToken lx)) = m_last_indent lx - 1)
       \<and> (m_last_indent lx - 1 \<le> int s div 2 \<and> int s div 2 \<le> m_last_indent lx + 1 \<longrightarrow>
            m_last_indent (snd (NextToken lx)) = int s div 2)"
proof -
  let ?S = "\<lparr>consumed = rev (skipped_text ls) @ cs,
              pending = replicate s (CHR '' '') @ ch # rest,
              eofbit = False, failbit = False\<rparr>"
  let ?lx0 = "lx\<lparr>m_c := ch, m_input := ?S\<rparr>"
  have rel: "RemoveEmptyLines lx = ?lx0"
    unfolding RemoveEmptyLines_def by (rule RemoveEmptyLines_skipped [OF ch skp inp])
  have mi: "m_input ?lx0 = ?S" by simp
  have "RemoveEmptyLines ?lx0 = ?lx0\<lparr>m_c := ch\<rparr>"
    by (rule RemoveEmptyLines_spaces [OF mi ch])
  then have rel0: "RemoveEmptyLines ?lx0 = ?lx0" by simp
  have same: "NextToken lx = NextToken ?lx0"
    unfolding NextToken_def using doc rel rel0 by simp
  have doc0: "m_doc ?lx0 \<noteq> []" "last (m_doc ?lx0) = TNewline" and lvl0: "0 \<le> m_last_indent ?lx0"
    using doc lvl by simp_all
  note at = NextToken_at_line [OF doc0 mi ch lvl0, folded same]
  have A: "NextToken lx
              = NextToken_parse
                  (lx\<lparr>m_c := ch,
                       m_input := \<lparr>consumed = ch # replicate s (CHR '' '') @ rev (skipped_text ls) @ cs,
                                    pending = rest, eofbit = False, failbit = False\<rparr>\<rparr>)"
    if "int s div 2 = m_last_indent lx"
    using at that by simp
  have A': "m_last_indent (snd (NextToken lx)) = m_last_indent lx"
    if eq: "int s div 2 = m_last_indent lx"
    unfolding A [OF eq] by (simp add: NextToken_parse_last_indent)
  have B: "fst (NextToken lx) = Inr TIndent
            \<and> m_doc (snd (NextToken lx)) = m_doc lx @ [TIndent]
            \<and> m_last_indent (snd (NextToken lx)) = m_last_indent lx + 1"
    if "int s div 2 > m_last_indent lx"
    using at that by simp
  have C: "fst (NextToken lx) = Inr TDedent
            \<and> m_doc (snd (NextToken lx)) = m_doc lx @ [TDedent]
            \<and> m_last_indent (snd (NextToken lx)) = m_last_indent lx - 1"
    if "int s div 2 < m_last_indent lx"
    using at that by simp
  have D: "m_last_indent (snd (NextToken lx)) = int s div 2"
    if near: "m_last_indent lx - 1 \<le> int s div 2" "int s div 2 \<le> m_last_indent lx + 1"
  proof -
    consider "int s div 2 = m_last_indent lx" | "int s div 2 = m_last_indent lx + 1"
      | "int s div 2 = m_last_indent lx - 1"
      using near by linarith
    then show ?thesis
    proof cases
      case 1
      then show ?thesis using A' by simp
    next
      case 2
      then have "int s div 2 > m_last_indent lx" by simp
      from B [OF this] 2 show ?thesis by simp
    next
      case 3
      then have "int s div 2 < m_last_indent lx" by simp
      from C [OF this] 3 show ?thesis by simp
    qed
  qed
  from A A' B C D show ?thesis by blast
qed

theorem NextToken_leading_spaces_witness:
  "m_doc lexer_at_skipped \<noteq> [] \<and> last (m_doc lexer_at_skipped) = TNewline
   \<and> list_all skipped_line [''   '', ''#c'']
   \<and> m_input lexer_at_skipped
       = \<lparr>consumed = [LF, CHR ''x''],
          pending = skipped_text [''   '', ''#c''] @ replicate 1 (CHR '' '') @ CHR ''y'' # [LF],
          eofbit = False, failbit = False\<rparr>
   \<and> 0 \<le> m_last_indent lexer_at_skipped
   \<and> int 1 div 2 = m_last_indent lexer_at_skipped
   \<and> m_last_indent lexer_at_skipped - 1 \<le> int 1 div 2
   \<and> int 1 div 2 \<le> m_last_indent lexer_at_skipped + 1
   \<and> NextToken lexer_at_skipped
       = NextToken_parse
           (lexer_at_skipped\<lparr>m_c := CHR ''y'',
              m_input := \<lparr>consumed = CHR ''y'' # replicate 1 (CHR '' '')
                                        @ rev (skipped_text [''   '', ''#c'']) @ [LF, CHR ''x''],
                           pending = [LF], eofbit = False, failbit = False\<rparr>\<rparr>)
   \<and> fst (NextToken lexer_at_skipped) = Inr (TId ''y'')
   \<and> m_last_indent (snd (NextToken lexer_at_skipped)) = int 1 div 2
   \<and> m_doc lexer_at_indent \<noteq> [] \<and> last (m_doc lexer_at_indent) = TNewline
   \<and> list_all skipped_line []
   \<and> m_input lexer_at_indent
       = \<lparr>consumed = [LF, CHR '':'', CHR ''a''],
          pending = skipped_text [] @ replicate 2 (CHR '' '') @ CHR ''y'' # [],
          eofbit = False, failbit = False\<rparr>
   \<and> int 2 div 2 > m_last_indent lexer_at_indent
   \<and> int 2 div 2 \<le> m_last_indent lexer_at_indent + 1
   \<and> fst (NextToken lexer_at_indent) = Inr TIndent
   \<and> m_doc (snd (NextToken lexer_at_indent)) = m_doc lexer_at_indent @ [TIndent]
   \<and> m_last_indent (snd (NextToken lexer_at_indent)) = m_last_indent lexer_at_indent + 1
   \<and> m_last_indent (snd (NextToken lexer_at_indent)) = int 2 div 2
   \<and> m_doc lexer_at_odd_dedent \<noteq> [] \<and> last (m_doc lexer_at_odd_dedent) = TNewline
   \<and> m_input lexer_at_odd_dedent
       = \<lparr>consumed = [LF, CHR ''b'', CHR '' '', CHR '' '', LF, CHR '':'', CHR ''a''],
          pending = skipped_text [] @ replicate 1 (CHR '' '') @ CHR ''c'' # [LF],
          eofbit = False, failbit = False\<rparr>
   \<and> int 1 div 2 < m_last_indent lexer_at_odd_dedent
   \<and> m_last_indent lexer_at_odd_dedent - 1 \<le> int 1 div 2
   \<and> fst (NextToken lexer_at_odd_dedent) = Inr TDedent
   \<and> m_doc (snd (NextToken lexer_at_odd_dedent)) = m_doc lexer_at_odd_dedent @ [TDedent]
   \<and> m_last_indent (snd (NextToken lexer_at_odd_dedent)) = m_last_indent lexer_at_odd_dedent - 1
   \<and> m_last_indent (snd (NextToken lexer_at_odd_dedent)) = int 1 div 2"
proof -
  have o1: "m_doc lexer_at_skipped \<noteq> []" and o2: "last (m_doc lexer_at_skipped) = TNewline"
    and sk: "list_all skipped_line [''   '', ''#c'']"
    and o3: "m_input lexer_at_skipped
       = \<lparr>consumed = [LF, CHR ''x''],
          pending = skipped_text [''   '', ''#c''] @ replicate 1 (CHR '' '') @ CHR ''y'' # [LF],
          eofbit = False, failbit = False\<rparr>"
    and o4: "0 \<le> m_last_indent lexer_at_skipped"
    and o5: "int 1 div 2 = m_last_indent lexer_at_skipped"
    and o6: "m_last_indent lexer_at_skipped - 1 \<le> int 1 div 2"
    and o7: "int 1 div 2 \<le> m_last_indent lexer_at_skipped + 1"
    by code_simp+
  have c: "CHR ''y'' \<noteq> CHR '' ''" "CHR ''y'' \<noteq> LF" "CHR ''y'' \<noteq> CHR ''#''"
    by (simp_all add: LF_def)
  note w1 = NextToken_leading_spaces [OF o1 o2 sk o3 c o4]
  have w1': "fst (NextToken lexer_at_skipped) = Inr (TId ''y'')"
    by code_simp
  have i1: "m_doc lexer_at_indent \<noteq> []" and i2: "last (m_doc lexer_at_indent) = TNewline"
    and sn: "list_all skipped_line []"
    and i3: "m_input lexer_at_indent
       = \<lparr>consumed = [LF, CHR '':'', CHR ''a''],
          pending = skipped_text [] @ replicate 2 (CHR '' '') @ CHR ''y'' # [],
          eofbit = False, failbit = False\<rparr>"
    and i4: "0 \<le> m_last_indent lexer_at_indent"
    and i5: "int 2 div 2 > m_last_indent lexer_at_indent"
    and i6: "m_last_indent lexer_at_indent - 1 \<le> int 2 div 2"
    and i7: "int 2 div 2 \<le> m_last_indent lexer_at_indent + 1"
    by code_simp+
  note w2 = NextToken_leading_spaces [OF i1 i2 sn i3 c i4]
  have d1: "m_doc lexer_at_odd_dedent \<noteq> []" and d2: "last (m_doc lexer_at_odd_dedent) = TNewline"
    and d3: "m_input lexer_at_odd_dedent
       = \<lparr>consumed = [LF, CHR ''b'', CHR '' '', CHR '' '', LF, CHR '':'', CHR ''a''],
          pending = skipped_text [] @ replicate 1 (CHR '' '') @ CHR ''c'' # [LF],
          eofbit = False, failbit = False\<rparr>"
    and d4: "0 \<le> m_last_indent lexer_at_odd_dedent"
    and d5: "int 1 div 2 < m_last_indent lexer_at_odd_dedent"
    and d6: "m_last_indent lexer_at_odd_dedent - 1 \<le> int 1 div 2"
    and d7: "int 1 div 2 \<le> m_last_indent lexer_at_odd_dedent + 1"
    by code_simp+
  have c3: "CHR ''c'' \<noteq> CHR '' ''" "CHR ''c'' \<noteq> LF" "CHR ''c'' \<noteq> CHR ''#''"
    by (simp_all add: LF_def)
  note w3 = NextToken_leading_spaces [OF d1 d2 sn d3 c3 d4]
  from o1 o2 sk o3 o4 o5 o6 o7 w1 w1' i1 i2 sn i3 i5 i6 i7 w2 d1 d2 d3 d5 d6 d7 w3 show ?thesis
    by blast
qed

end
